theory Spec2Isabelle
  imports Complex_Main "HOL-Library.Sublist"
begin

section \<open>Go strings and the standard-library functions the analyzer calls\<close>

text \<open>
  A Go string is a sequence of bytes, here a \<^typ>\<open>string\<close>. The line separator of
  \<^verbatim>\<open>strings.Split(s, "\n")\<close> and \<^verbatim>\<open>strings.Join(xs, "\n")\<close> is the byte 0x0A.
\<close>

abbreviation nl :: char where
  "nl \<equiv> CHR 0x0A"

text \<open>A run-time panic of the Go program, as a value.\<close>

datatype panic = IndexOutOfRange | InterfaceConversion

text \<open>
  \<^verbatim>\<open>strings.Split(s, "\n")\<close>: one more piece than there are separators. The result is
  never empty, so the first branch of the \<open>case\<close> is never taken.
\<close>

fun Split :: "string \<Rightarrow> string list" where
  "Split [] = [[]]"
| "Split (c # cs) =
     (if c = nl then [] # Split cs
      else (case Split cs of [] \<Rightarrow> [[c]] | l # ls \<Rightarrow> (c # l) # ls))"

text \<open>\<^verbatim>\<open>strings.Join(elems, sep)\<close>.\<close>

fun Join :: "string list \<Rightarrow> string \<Rightarrow> string" where
  "Join [] sep = []"
| "Join [x] sep = x"
| "Join (x # y # ys) sep = x @ sep @ Join (y # ys) sep"

text \<open>\<^verbatim>\<open>strings.Contains(s, substr)\<close>.\<close>

fun Contains :: "string \<Rightarrow> string \<Rightarrow> bool" where
  "Contains [] substr = (substr = [])"
| "Contains (c # cs) substr = (prefix substr (c # cs) \<or> Contains cs substr)"

text \<open>
  \<^verbatim>\<open>strings.TrimSpace\<close> removes leading and trailing white space as Unicode defines it
  (\<^verbatim>\<open>unicode.IsSpace\<close>). On a byte string these are the UTF-8 encodings of the
  white-space code points: the six ASCII ones, U+0085, U+00A0, U+1680, U+2000 to U+200A,
  U+2028, U+2029, U+202F, U+205F and U+3000. On well-formed UTF-8, which is what JSON
  decoding yields, stripping these byte sequences from the left and then from the right is
  what \<^verbatim>\<open>TrimSpace\<close> does.
\<close>

definition spaceRunes :: "string list" where
  "spaceRunes =
    [[CHR 0x09], [CHR 0x0A], [CHR 0x0B], [CHR 0x0C], [CHR 0x0D], [CHR 0x20],
     [CHR 0xC2, CHR 0x85], [CHR 0xC2, CHR 0xA0], [CHR 0xE1, CHR 0x9A, CHR 0x80],
     [CHR 0xE2, CHR 0x80, CHR 0x80], [CHR 0xE2, CHR 0x80, CHR 0x81],
     [CHR 0xE2, CHR 0x80, CHR 0x82], [CHR 0xE2, CHR 0x80, CHR 0x83],
     [CHR 0xE2, CHR 0x80, CHR 0x84], [CHR 0xE2, CHR 0x80, CHR 0x85],
     [CHR 0xE2, CHR 0x80, CHR 0x86], [CHR 0xE2, CHR 0x80, CHR 0x87],
     [CHR 0xE2, CHR 0x80, CHR 0x88], [CHR 0xE2, CHR 0x80, CHR 0x89],
     [CHR 0xE2, CHR 0x80, CHR 0x8A], [CHR 0xE2, CHR 0x80, CHR 0xA8],
     [CHR 0xE2, CHR 0x80, CHR 0xA9], [CHR 0xE2, CHR 0x80, CHR 0xAF],
     [CHR 0xE2, CHR 0x81, CHR 0x9F], [CHR 0xE3, CHR 0x80, CHR 0x80]]"

text \<open>Strip, from the left, every leading occurrence of one of the given byte sequences.\<close>

function stripUnits :: "string list \<Rightarrow> string \<Rightarrow> string" where
  "stripUnits us s =
     (case find (\<lambda>u. u \<noteq> [] \<and> prefix u s) us of
        None \<Rightarrow> s
      | Some u \<Rightarrow> stripUnits us (drop (length u) s))"
  by pat_completeness auto
termination
proof (relation "measure (\<lambda>(us, s). length s)")
  show "wf (measure (\<lambda>(us, s). length s))" by simp
next
  fix us :: "string list" and s u :: string
  assume "find (\<lambda>u. u \<noteq> [] \<and> prefix u s) us = Some u"
  then have "u \<noteq> []" and "prefix u s"
    by (auto simp: find_Some_iff)
  then have "s \<noteq> []" by auto
  with \<open>u \<noteq> []\<close> show "((us, drop (length u) s), (us, s)) \<in> measure (\<lambda>(us, s). length s)"
    by simp
qed

declare stripUnits.simps [simp del]

definition TrimSpace :: "string \<Rightarrow> string" where
  "TrimSpace s = rev (stripUnits (map rev spaceRunes) (rev (stripUnits spaceRunes s)))"

text \<open>\<^verbatim>\<open>fmt.Sprintf("%d", n)\<close>: the decimal digits of an integer.\<close>

function digits :: "nat \<Rightarrow> string" where
  "digits n = (if n < 10 then [''0123456789'' ! n] else digits (n div 10) @ [''0123456789'' ! (n mod 10)])"
  by pat_completeness auto
termination
  by (relation "measure id") auto

declare digits.simps [simp del]

definition itoa :: "int \<Rightarrow> string" where
  "itoa n = (if n < 0 then CHR ''-'' # digits (nat (- n)) else digits (nat n))"

section \<open>The regular expressions of checks.go\<close>

text \<open>
  The patterns are compiled by Go's \<^verbatim>\<open>regexp\<close> package; each is modelled by the
  predicate it decides. In that package \<^verbatim>\<open>\s\<close> is the class of tab, line feed, form feed,
  carriage return and space, \<^verbatim>\<open>\w\<close> is \<^verbatim>\<open>[0-9A-Za-z_]\<close>, \<^verbatim>\<open>\b\<close> is the ASCII word
  boundary and \<^verbatim>\<open>$\<close> is the end of the text. Case-insensitive matching is modelled on
  the ASCII letters (Go also folds U+017F to \<^verbatim>\<open>s\<close> and U+212A to \<^verbatim>\<open>k\<close>; the models
  agree with the package on ASCII text).
\<close>

definition reSpace :: "char \<Rightarrow> bool" where
  "reSpace c = (c \<in> set [CHR 0x09, CHR 0x0A, CHR 0x0C, CHR 0x0D, CHR 0x20])"

definition reWord :: "char \<Rightarrow> bool" where
  "reWord c = (c \<in> set ''0123456789ABCDEFGHIJKLMNOPQRSTUVWXYZ_abcdefghijklmnopqrstuvwxyz'')"

definition toLower :: "char \<Rightarrow> char" where
  "toLower c =
     (case map_of (zip ''ABCDEFGHIJKLMNOPQRSTUVWXYZ'' ''abcdefghijklmnopqrstuvwxyz'') c of
        None \<Rightarrow> c | Some l \<Rightarrow> l)"

text \<open>A literal matched case-insensitively at the start of the text; the pattern is given in lower case.\<close>

definition foldPrefix :: "string \<Rightarrow> string \<Rightarrow> bool" where
  "foldPrefix lit s = prefix lit (map toLower s)"

text \<open>A literal matched case-insensitively anywhere in the text.\<close>

definition foldContains :: "string \<Rightarrow> string \<Rightarrow> bool" where
  "foldContains lit s = Contains (map toLower s) lit"

text \<open>\<^verbatim>\<open>^\s*[~^=]+\s*$\<close>: a line of only the symbols \<^verbatim>\<open>~ ^ =\<close>.\<close>

definition symbolPattern :: "string \<Rightarrow> bool" where
  "symbolPattern s =
     (let a = dropWhile reSpace s
      in takeWhile (\<lambda>c. c \<in> set ''~^='') a \<noteq> [] \<and>
         list_all reSpace (dropWhile (\<lambda>c. c \<in> set ''~^='') a))"

text \<open>\<^verbatim>\<open>(?i)^\s*(Error|FATAL|CRITICAL)\b\<close>: one of the words, then the end or a non-word byte.\<close>

definition wordThenBoundary :: "string \<Rightarrow> string \<Rightarrow> bool" where
  "wordThenBoundary w s =
     (foldPrefix w s \<and> (case drop (length w) s of [] \<Rightarrow> True | c # _ \<Rightarrow> \<not> reWord c))"

text \<open>
  \<^verbatim>\<open>[\w.]+Error:\<close> at the start of the text, case-insensitively: one or more word or dot
  bytes, followed by the literal. The class run may stop anywhere, so every split is tried.
\<close>

fun classThenError :: "string \<Rightarrow> bool" where
  "classThenError [] = False"
| "classThenError (c # cs) =
     ((reWord c \<or> c = CHR ''.'') \<and> (foldPrefix ''error:'' cs \<or> classThenError cs))"

text \<open>The nine entries of \<^verbatim>\<open>criticalPatterns\<close>, in the order of the source.\<close>

definition criticalPatterns :: "(string \<Rightarrow> bool) list" where
  "criticalPatterns =
    [\<lambda>s. foldPrefix ''command failed:'' (dropWhile reSpace s),
     \<lambda>s. wordThenBoundary ''error'' (dropWhile reSpace s) \<or>
         wordThenBoundary ''fatal'' (dropWhile reSpace s) \<or>
         wordThenBoundary ''critical'' (dropWhile reSpace s),
     \<lambda>s. foldPrefix ''caused by:'' (dropWhile reSpace s),
     \<lambda>s. classThenError (dropWhile reSpace s),
     foldContains ''permission denied'',
     foldContains ''failed'',
     foldContains ''exception'',
     foldContains ''could not connect'',
     foldContains ''timed out'']"

text \<open>\<^verbatim>\<open>isCriticalLine\<close>: the first matching pattern returns true.\<close>

fun anyMatch :: "(string \<Rightarrow> bool) list \<Rightarrow> string \<Rightarrow> bool" where
  "anyMatch [] line = False"
| "anyMatch (pattern # rest) line = (if pattern line then True else anyMatch rest line)"

definition isCriticalLine :: "string \<Rightarrow> bool" where
  "isCriticalLine line = anyMatch criticalPatterns line"

text \<open>
  \<^verbatim>\<open>FileNotFoundError: \[Errno 2\] No such file or directory: '([\w\/\.\-]+)'\<close> with
  \<^verbatim>\<open>FindStringSubmatch\<close>: the capture of the leftmost match, if any. The class excludes
  the closing quote, so the capture is the whole run of class bytes after the literal.
\<close>

definition pathByte :: "char \<Rightarrow> bool" where
  "pathByte c = (reWord c \<or> c \<in> set ''/.-'')"

definition fileNotFoundAt :: "string \<Rightarrow> string option" where
  "fileNotFoundAt s =
     (let lit = ''FileNotFoundError: [Errno 2] No such file or directory: '' @ [CHR 0x27] in
      if prefix lit s
      then (let r = drop (length lit) s in
            if takeWhile pathByte r \<noteq> [] \<and> prefix [CHR 0x27] (dropWhile pathByte r)
            then Some (takeWhile pathByte r) else None)
      else None)"

fun fileNotFoundRe :: "string \<Rightarrow> string option" where
  "fileNotFoundRe [] = None"
| "fileNotFoundRe (c # cs) =
     (case fileNotFoundAt (c # cs) of Some p \<Rightarrow> Some p | None \<Rightarrow> fileNotFoundRe cs)"

section \<open>The message summarizer (checks.go)\<close>

text \<open>\<^verbatim>\<open>xs[i]\<close> with Go's bounds check.\<close>

definition elemAt :: "'a list \<Rightarrow> int \<Rightarrow> panic + 'a" where
  "elemAt xs i = (if 0 \<le> i \<and> i < int (length xs) then Inr (xs ! nat i) else Inl IndexOutOfRange)"

text \<open>The placeholder appended when \<^verbatim>\<open>omittedLines > 0\<close>.\<close>

definition omitted :: "int \<Rightarrow> string list" where
  "omitted omittedLines =
     (if omittedLines > 0 then [''[... '' @ itoa omittedLines @ '' lines omitted ...]''] else [])"

text \<open>
  One of the three tail reads of the cutoff branch: \<^verbatim>\<open>lines[k]\<close> trimmed, kept unless
  it is empty or symbol-only.
\<close>

definition tailLine :: "string list \<Rightarrow> int \<Rightarrow> panic + string list" where
  "tailLine lines k =
     (case elemAt lines k of
        Inl p \<Rightarrow> Inl p
      | Inr l \<Rightarrow> Inr (if TrimSpace l \<noteq> [] \<and> \<not> symbolPattern (TrimSpace l) then [TrimSpace l] else []))"

text \<open>
  The cutoff branch of the loop (source lines 109 to 133), at index \<open>i\<close>: the placeholder,
  then the last three lines, the first two of them only when the guard on \<open>i\<close> holds.
\<close>

definition cutoff :: "string list \<Rightarrow> int \<Rightarrow> string list \<Rightarrow> int \<Rightarrow> panic + string list" where
  "cutoff lines i usefulLines cutLinesCount =
     (let n = int (length lines) in
      case (if i \<le> n - 3 then tailLine lines (n - 3) else Inr []) of
        Inl p \<Rightarrow> Inl p
      | Inr lastLine4 \<Rightarrow>
          (case (if i \<le> n - 2 then tailLine lines (n - 2) else Inr []) of
             Inl p \<Rightarrow> Inl p
           | Inr lastLine3 \<Rightarrow>
               (case tailLine lines (n - 1) of
                  Inl p \<Rightarrow> Inl p
                | Inr lastLine1 \<Rightarrow>
                    Inr (usefulLines @ omitted (cutLinesCount + n - i - 2)
                           @ lastLine4 @ lastLine3 @ lastLine1))))"

text \<open>
  The loop of \<^verbatim>\<open>processLongMessage\<close> over \<^verbatim>\<open>lines[1:]\<close>: \<open>i\<close> is the adjusted index of
  the line at the head of the fourth argument; the state is \<^verbatim>\<open>usefulLines\<close>,
  \<^verbatim>\<open>contextBuffer\<close> and \<^verbatim>\<open>cutLinesCount\<close>. The result is \<^verbatim>\<open>usefulLines\<close> at the
  loop's exit.
\<close>

fun walk :: "string list \<Rightarrow> int \<Rightarrow> int \<Rightarrow> string list \<Rightarrow> string list \<Rightarrow> string list \<Rightarrow> int
    \<Rightarrow> panic + string list" where
  "walk lines maxOutputLines i [] usefulLines contextBuffer cutLinesCount = Inr usefulLines"
| "walk lines maxOutputLines i (line # rest) usefulLines contextBuffer cutLinesCount =
     (if TrimSpace line = [] \<or> symbolPattern (TrimSpace line)
      then walk lines maxOutputLines (i + 1) rest usefulLines contextBuffer cutLinesCount
      else if i = int (length lines) - 1
      then Inr (usefulLines @ omitted (cutLinesCount - int (length contextBuffer))
                  @ contextBuffer @ [TrimSpace line])
      else if int (length usefulLines) \<ge> maxOutputLines
      then cutoff lines i usefulLines cutLinesCount
      else if isCriticalLine (TrimSpace line)
      then walk lines maxOutputLines (i + 1) rest
             (usefulLines @ omitted (cutLinesCount - int (length contextBuffer))
                @ contextBuffer @ [TrimSpace line])
             [] 0
      else walk lines maxOutputLines (i + 1) rest usefulLines
             ((if length contextBuffer \<ge> 2 then drop 1 contextBuffer else contextBuffer)
                @ [TrimSpace line])
             (cutLinesCount + 1))"

text \<open>\<^verbatim>\<open>processLongMessage\<close>: \<^verbatim>\<open>lines[0]\<close> panics on an empty slice.\<close>

definition processLongMessage :: "string list \<Rightarrow> int \<Rightarrow> panic + string" where
  "processLongMessage lines maxOutputLines =
     (case lines of
        [] \<Rightarrow> Inl IndexOutOfRange
      | first # rest \<Rightarrow>
          (case walk lines maxOutputLines 1 rest [TrimSpace first] [] 0 of
             Inl p \<Rightarrow> Inl p
           | Inr usefulLines \<Rightarrow> Inr (Join usefulLines [nl])))"

text \<open>
  Source lines 61 to 68 of \<^verbatim>\<open>extractUsefulError\<close>: drop one empty first line and one
  empty last line. Both reads are bounds-checked by Go.
\<close>

definition stripEmptyEnds :: "string list \<Rightarrow> panic + string list" where
  "stripEmptyEnds lines =
     (case elemAt lines 0 of
        Inl p \<Rightarrow> Inl p
      | Inr first \<Rightarrow>
          (let lines1 = (if first = [] then drop 1 lines else lines) in
           case elemAt lines1 (int (length lines1) - 1) of
             Inl p \<Rightarrow> Inl p
           | Inr final \<Rightarrow> Inr (if final = [] then take (length lines1 - 1) lines1 else lines1)))"

definition extractUsefulError :: "string \<Rightarrow> int \<Rightarrow> panic + string" where
  "extractUsefulError fullMessage maxOutputLines =
     (if fullMessage = [] then Inr []
      else case stripEmptyEnds (Split fullMessage) of
             Inl p \<Rightarrow> Inl p
           | Inr lines \<Rightarrow>
               if int (length lines) \<le> maxOutputLines then Inr (TrimSpace fullMessage)
               else processLongMessage lines maxOutputLines)"

definition extractUsefulErrorDefault :: "string \<Rightarrow> panic + string" where
  "extractUsefulErrorDefault fullMessage = extractUsefulError fullMessage 8"

section \<open>Decoded JSON, log entries and the report\<close>

text \<open>
  What \<^verbatim>\<open>json.Unmarshal\<close> stores in an \<^verbatim>\<open>interface{}\<close>: \<^verbatim>\<open>nil\<close>, a \<^verbatim>\<open>bool\<close>, a
  \<^verbatim>\<open>float64\<close>, a \<^verbatim>\<open>string\<close>, a \<^verbatim>\<open>[]interface{}\<close> or a \<^verbatim>\<open>map[string]interface{}\<close>. A finite
  \<^verbatim>\<open>float64\<close> is a rational number. A Go map is an association list; its keys are distinct,
  and the order of the list stands for the order in which a \<^verbatim>\<open>range\<close> visits the entries.
  The values the checks pass to the report as fields are of this type too (Go strings).
\<close>

datatype json =
  JNull
| JBool bool
| JNum rat
| JStr string
| JArr "json list"
| JObj "(string \<times> json) list"

text \<open>\<^verbatim>\<open>m[k]\<close> on a \<^verbatim>\<open>map[string]interface{}\<close>: a missing key gives \<^verbatim>\<open>nil\<close>.\<close>

definition mapIndex :: "(string \<times> json) list \<Rightarrow> string \<Rightarrow> json" where
  "mapIndex m k = (case map_of m k of None \<Rightarrow> JNull | Some v \<Rightarrow> v)"

text \<open>
  The parts of the Go standard library and runtime that the analyzer calls and that are not
  modelled further, as parameters: how \<^verbatim>\<open>fmt\<close> prints a value that is not a string under
  \<^verbatim>\<open>%v\<close> and under \<^verbatim>\<open>%s\<close>, what \<^verbatim>\<open>json.Unmarshal\<close> decodes from a line into a
  \<^verbatim>\<open>map[string]any\<close> (\<open>None\<close> is its error), and the implementation-dependent result of
  converting a \<^verbatim>\<open>float64\<close> outside the range of \<^verbatim>\<open>int\<close>.
\<close>

record golib =
  sprintV :: "json \<Rightarrow> string"
  sprintS :: "json \<Rightarrow> string"
  unmarshal :: "string \<Rightarrow> (string \<times> json) list option"
  convOverflow :: "rat \<Rightarrow> int"

text \<open>\<^verbatim>\<open>fmt.Sprintf("%v", x)\<close> and \<^verbatim>\<open>fmt.Sprintf("%s", x)\<close>: a string prints as itself.\<close>

definition verbV :: "golib \<Rightarrow> json \<Rightarrow> string" where
  "verbV L x = (case x of JStr s \<Rightarrow> s | JNull \<Rightarrow> ''<nil>'' | _ \<Rightarrow> sprintV L x)"

definition verbS :: "golib \<Rightarrow> json \<Rightarrow> string" where
  "verbS L x = (case x of JStr s \<Rightarrow> s | JNull \<Rightarrow> ''%!s(<nil>)'' | _ \<Rightarrow> sprintS L x)"

text \<open>
  \<^verbatim>\<open>int(levelFloat)\<close>: the fraction is discarded (truncation towards zero); \<^verbatim>\<open>int\<close> has 64
  bits, and outside its range the result is implementation-dependent.
\<close>

definition truncToZero :: "rat \<Rightarrow> int" where
  "truncToZero f = (if f < 0 then - \<lfloor>- f\<rfloor> else \<lfloor>f\<rfloor>)"

definition goInt :: "golib \<Rightarrow> rat \<Rightarrow> int" where
  "goInt L f =
     (if - (2 ^ 63) \<le> truncToZero f \<and> truncToZero f < 2 ^ 63 then truncToZero f else convOverflow L f)"

text \<open>
  Modelled from the spec: the declarations of \<^verbatim>\<open>LogEntry\<close> and \<^verbatim>\<open>SimpleReport\<close> (models.go
  is not among the sources). The spec's LogRecord has a level name, a message and the extras;
  the fields are named as checks.go and the reader use them. The README shows
  \<^verbatim>\<open>SimpleReport\<close> with its three string slices. An unset string is empty.
\<close>

record LogEntry =
  Level :: string
  Msg :: string
  Extras :: "string \<rightharpoonup> json"

record SimpleReport =
  Errors :: "string list"
  Warnings :: "string list"
  Infos :: "string list"

text \<open>\<^verbatim>\<open>&SimpleReport{}\<close>: the report at the start of a scan.\<close>

definition emptyReport :: SimpleReport where
  "emptyReport = \<lparr>Errors = [], Warnings = [], Infos = []\<rparr>"

text \<open>\<^verbatim>\<open>line.Extras[k]\<close>: a missing key gives \<^verbatim>\<open>nil\<close>.\<close>

definition extra :: "LogEntry \<Rightarrow> string \<Rightarrow> json" where
  "extra line k = (case Extras line k of None \<Rightarrow> JNull | Some v \<Rightarrow> v)"

subsection \<open>report.go\<close>

text \<open>
  The loop of \<^verbatim>\<open>formatSimpleMessage\<close> over the fields, two at a time; a last field without
  a value is skipped.
\<close>

fun formatFields :: "golib \<Rightarrow> json list \<Rightarrow> string" where
  "formatFields L (k # v # rest) =
     (if verbV L k = ''Message''
      then [nl] @ verbV L k @ '': '' @ verbV L v @ [nl]
      else '' | '' @ verbV L k @ '': '' @ verbV L v) @ formatFields L rest"
| "formatFields L [k] = []"
| "formatFields L [] = []"

definition formatSimpleMessage :: "golib \<Rightarrow> string \<Rightarrow> json list \<Rightarrow> string" where
  "formatSimpleMessage L msg fieldv = (if fieldv = [] then msg else msg @ formatFields L fieldv)"

definition Error :: "golib \<Rightarrow> SimpleReport \<Rightarrow> string \<Rightarrow> json list \<Rightarrow> SimpleReport" where
  "Error L r msg fieldv = r\<lparr>Errors := Errors r @ [formatSimpleMessage L msg fieldv]\<rparr>"

definition Warning :: "golib \<Rightarrow> SimpleReport \<Rightarrow> string \<Rightarrow> json list \<Rightarrow> SimpleReport" where
  "Warning L r msg fieldv =
     (if formatSimpleMessage L msg fieldv \<in> set (Warnings r) then r
      else r\<lparr>Warnings := Warnings r @ [formatSimpleMessage L msg fieldv]\<rparr>)"

definition Info :: "golib \<Rightarrow> SimpleReport \<Rightarrow> string \<Rightarrow> json list \<Rightarrow> SimpleReport" where
  "Info L r msg fieldv = r\<lparr>Infos := Infos r @ [formatSimpleMessage L msg fieldv]\<rparr>"

subsection \<open>The check functions of checks.go\<close>

type_synonym CheckFunc = "LogEntry \<Rightarrow> SimpleReport \<Rightarrow> panic + SimpleReport"

definition prLimitReached :: "golib \<Rightarrow> CheckFunc" where
  "prLimitReached L line report =
     Inr (Warning L report ''PR limit reached - skipping PR creation'' [])"

text \<open>The loop of \<^verbatim>\<open>renovateConfigErrors\<close>: an element that is not an object is skipped.\<close>

fun configErrorsOf :: "golib \<Rightarrow> json list \<Rightarrow> string list" where
  "configErrorsOf L [] = []"
| "configErrorsOf L (errMap # rest) =
     (case errMap of
        JObj m \<Rightarrow> [[nl] @ verbS L (mapIndex m ''topic'') @ '': '' @ verbS L (mapIndex m ''message'')]
      | _ \<Rightarrow> []) @ configErrorsOf L rest"

definition renovateConfigErrors :: "golib \<Rightarrow> CheckFunc" where
  "renovateConfigErrors L line report =
     (let configErrors =
        (case extra line ''errors'' of
           JArr errors \<Rightarrow> configErrorsOf L errors
         | _ \<Rightarrow> [''Unable to parse config errors''])
      in Inr (Error L report ''Found renovate config errors''
                [JStr ''Errors'', JStr (Join configErrors [])]))"

definition rawExecError :: "golib \<Rightarrow> CheckFunc" where
  "rawExecError L line report =
     (case extra line ''err'' of
        JObj errData \<Rightarrow>
          (let fieldv = [JStr ''Branch'', extra line ''branch'',
                         JStr ''Duration'', extra line ''durationMs''];
               fieldv = fieldv @
                 (case mapIndex errData ''options'' of
                    JObj options \<Rightarrow> [JStr ''Timeout'', mapIndex options ''timeout'']
                  | _ \<Rightarrow> []);
               message = (case mapIndex errData ''message'' of JStr s \<Rightarrow> s | _ \<Rightarrow> []);
               fieldv = fieldv @
                 (if Contains message ''Failed to download metadata for repo''
                  then [JStr ''Hint'', JStr ''Possible Red Hat subscription activation key issue'']
                  else []);
               fieldv = fieldv @
                 (case fileNotFoundRe message of
                    Some path \<Rightarrow>
                      [JStr ''Hint'',
                       JStr (''File not found: '' @ path @ '', check rpms.in.yaml configuration'')]
                  | None \<Rightarrow> [])
           in case extractUsefulErrorDefault message of
                Inl p \<Rightarrow> Inl p
              | Inr summary \<Rightarrow>
                  Inr (Error L report ''Error executing command''
                         (fieldv @ [JStr ''Message'', JStr summary])))
      | _ \<Rightarrow> Inr report)"

text \<open>
  \<^verbatim>\<open>platformCommitError\<close>. The two type assertions in the header of its loop have no
  \<^verbatim>\<open>ok\<close> result: they panic when \<^verbatim>\<open>err.task\<close> is not an object or \<^verbatim>\<open>task.commands\<close> is
  not an array. The loop body is \<^verbatim>\<open>fullTask = fmt.Sprintf("%s %s", fullTask, cmd)\<close>.
\<close>

definition platformCommitError :: "golib \<Rightarrow> CheckFunc" where
  "platformCommitError L line report =
     (case extra line ''err'' of
        JObj errData \<Rightarrow>
          (let errMessage = (case mapIndex errData ''message'' of JStr s \<Rightarrow> s | _ \<Rightarrow> []) in
           case mapIndex errData ''task'' of
             JObj task \<Rightarrow>
               (case mapIndex task ''commands'' of
                  JArr commands \<Rightarrow>
                    Inr (Error L report (Msg line)
                           [JStr ''Branch'', extra line ''branch'',
                            JStr ''Message'', JStr errMessage,
                            JStr ''Task'',
                            JStr (foldl (\<lambda>fullTask cmd. fullTask @ '' '' @ verbS L cmd) [] commands)])
                | _ \<Rightarrow> Inl InterfaceConversion)
           | _ \<Rightarrow> Inl InterfaceConversion)
      | _ \<Rightarrow> Inr report)"

text \<open>The registry that \<^verbatim>\<open>init\<close> fills: four selectors, each with its check function.\<close>

definition Selectors :: "golib \<Rightarrow> (string \<times> CheckFunc) list" where
  "Selectors L =
     [(''Reached PR limit - skipping PR creation'', prLimitReached L),
      (''Found renovate config errors'', renovateConfigErrors L),
      (''rawExec err'', rawExecError L),
      (''Platform-native commit: unknown error'', platformCommitError L)]"

text \<open>
  The selector loop of \<^verbatim>\<open>ProcessLogFile\<close> (source lines 339 to 343) over the entries of the
  registry, in the order in which the \<^verbatim>\<open>range\<close> visits them. A panic of a check function
  ends the loop, and the program.
\<close>

fun dispatch :: "(string \<times> CheckFunc) list \<Rightarrow> LogEntry \<Rightarrow> SimpleReport \<Rightarrow> panic + SimpleReport" where
  "dispatch [] entry report = Inr report"
| "dispatch ((selector, checkFunc) # rest) entry report =
     (if Contains (Msg entry) selector
      then (case checkFunc entry report of
              Inl p \<Rightarrow> Inl p
            | Inr report' \<Rightarrow> dispatch rest entry report')
      else dispatch rest entry report)"

section \<open>The log reader (log_reader.go)\<close>

definition renovateLogLevels :: "int \<rightharpoonup> string" where
  "renovateLogLevels =
     map_of [(10, ''TRACE''), (20, ''DEBUG''), (30, ''INFO''),
             (40, ''WARN''), (50, ''ERROR''), (60, ''FATAL'')]"

definition extraKeys :: "string list" where
  "extraKeys =
     [''err'', ''errors'', ''errorMessage'', ''branch'', ''durationMs'', ''depName'',
      ''branchesInformation'', ''context'', ''packageFile'', ''currentValue'',
      ''previousNewValue'', ''thisNewValue'', ''oldConfig'', ''newConfig'', ''migratedConfig'']"

text \<open>The body of the loop of \<^verbatim>\<open>parseLogLine\<close> over the decoded map: the \<^verbatim>\<open>switch\<close> on the key.\<close>

definition parseField :: "golib \<Rightarrow> LogEntry \<Rightarrow> string \<times> json \<Rightarrow> LogEntry" where
  "parseField L entry kv =
     (case kv of (k, v) \<Rightarrow>
        if k = ''level'' then
          (case v of
             JNum levelFloat \<Rightarrow>
               (case renovateLogLevels (goInt L levelFloat) of
                  None \<Rightarrow> entry
                | Some levelStr \<Rightarrow> entry\<lparr>Level := levelStr\<rparr>)
           | _ \<Rightarrow> entry)
        else if k = ''msg'' then
          (case v of JStr msgStr \<Rightarrow> entry\<lparr>Msg := msgStr\<rparr> | _ \<Rightarrow> entry)
        else if k \<in> set extraKeys then entry\<lparr>Extras := (Extras entry)(k \<mapsto> v)\<rparr>
        else entry)"

datatype error = UnmarshalError | LogFileNotFound | OpenError | Cancelled | ReadError

definition parseLogLine :: "golib \<Rightarrow> string \<Rightarrow> error + LogEntry" where
  "parseLogLine L line =
     (case unmarshal L line of
        None \<Rightarrow> Inl UnmarshalError
      | Some rawData \<Rightarrow>
          Inr (foldl (parseField L) \<lparr>Level = [], Msg = [], Extras = Map.empty\<rparr> rawData))"

definition buildErrorMessage :: "LogEntry \<Rightarrow> string" where
  "buildErrorMessage logEntry =
     (let fromErr =
        (case extra logEntry ''err'' of
           JObj errMap \<Rightarrow> (case mapIndex errMap ''message'' of JStr message \<Rightarrow> Some message | _ \<Rightarrow> None)
         | _ \<Rightarrow> None)
      in case fromErr of
           Some message \<Rightarrow> Msg logEntry @ '': '' @ message
         | None \<Rightarrow>
             (case extra logEntry ''errorMessage'' of
                JStr errorMessage \<Rightarrow> Msg logEntry @ '': '' @ errorMessage
              | _ \<Rightarrow> Msg logEntry @ [nl]))"

text \<open>
  The loop of \<^verbatim>\<open>formatFailMsg\<close> over a tally, in the order of the \<^verbatim>\<open>range\<close>: the state is
  \<^verbatim>\<open>totalCount\<close> and \<^verbatim>\<open>uniqueMessages\<close>.
\<close>

fun failLoop :: "(string \<times> int) list \<Rightarrow> int \<Rightarrow> string list \<Rightarrow> int \<times> string list" where
  "failLoop [] totalCount uniqueMessages = (totalCount, uniqueMessages)"
| "failLoop ((msg, count) # rest) totalCount uniqueMessages =
     failLoop rest (totalCount + count)
       (uniqueMessages @ [if count > 1 then itoa count @ ''x '' @ msg else msg])"

definition formatFailMsg :: "(string \<times> int) list \<Rightarrow> string \<Rightarrow> string" where
  "formatFailMsg logs logLevel =
     (if logs = [] then []
      else case failLoop logs 0 [] of
             (totalCount, uniqueMessages) \<Rightarrow>
               itoa totalCount @ '' '' @ logLevel @ '': '' @ Join uniqueMessages [])"

definition buildErrorMessageFromLogs :: "(string \<times> int) list \<Rightarrow> (string \<times> int) list \<Rightarrow> string" where
  "buildErrorMessageFromLogs errorsMap fatalMap =
     (let errString = formatFailMsg errorsMap ''ERROR'';
          fatalString = formatFailMsg fatalMap ''FATAL''
      in if errString = [] \<and> fatalString = [] then []
         else ''Mintmaker finished with '' @ errString @ fatalString)"

text \<open>\<^verbatim>\<open>m[k]++\<close> on a \<^verbatim>\<open>map[string]int\<close>: a missing key counts from zero.\<close>

fun increment :: "(string \<times> int) list \<Rightarrow> string \<Rightarrow> (string \<times> int) list" where
  "increment [] k = [(k, 1)]"
| "increment ((k', c) # m) k = (if k' = k then (k', c + 1) # m else (k', c) # increment m k)"

text \<open>
  What \<^verbatim>\<open>ProcessLogFile\<close> meets outside the program: whether the file exists and opens, the
  lines the scanner yields and whether it stops on a read error, whether the context is done
  when the loop polls it with a given \<^verbatim>\<open>lineCount\<close>, and the orders in which the runtime
  ranges over the selector registry (at a given \<^verbatim>\<open>lineCount\<close>) and over a tally.
\<close>

datatype fileState = NotExist | OpenFails | Opened

record environment =
  logFile :: fileState
  scannedLines :: "string list"
  scannerErr :: bool
  ctxDone :: "nat \<Rightarrow> bool"
  rangeSelectors :: "nat \<Rightarrow> (string \<times> CheckFunc) list \<Rightarrow> (string \<times> CheckFunc) list"
  rangeTally :: "(string \<times> int) list \<Rightarrow> (string \<times> int) list"

text \<open>The variables of \<^verbatim>\<open>ProcessLogFile\<close> that the loop updates.\<close>

record scan =
  errorsMap :: "(string \<times> int) list"
  fatalMap :: "(string \<times> int) list"
  report :: SimpleReport

text \<open>The condition of source lines 313 and 347: nothing has been found so far.\<close>

definition nothingFound :: "scan \<Rightarrow> bool" where
  "nothingFound s =
     (errorsMap s = [] \<and> fatalMap s = [] \<and> Errors (report s) = [] \<and>
      Warnings (report s) = [] \<and> Infos (report s) = [])"

text \<open>The two returns of an interrupted scan (source lines 313 to 316 and 347 to 350).\<close>

definition interrupted :: "environment \<Rightarrow> error \<Rightarrow> scan \<Rightarrow> string \<times> SimpleReport \<times> error option" where
  "interrupted env err s =
     (if nothingFound s then ([], report s, Some err)
      else (buildErrorMessageFromLogs (rangeTally env (errorsMap s)) (rangeTally env (fatalMap s)),
            report s, None))"

text \<open>The body of the loop after the poll of the context (source lines 320 to 343).\<close>

definition processLine :: "golib \<Rightarrow> environment \<Rightarrow> nat \<Rightarrow> string \<Rightarrow> scan \<Rightarrow> panic + scan" where
  "processLine L env lineCount line s =
     (case parseLogLine L line of
        Inl err \<Rightarrow> Inr s
      | Inr entry \<Rightarrow>
          (let s1 =
             (if Level entry = ''FATAL''
              then s\<lparr>fatalMap := increment (fatalMap s) (buildErrorMessage entry)\<rparr>
              else if Level entry = ''ERROR''
              then s\<lparr>errorsMap := increment (errorsMap s) (buildErrorMessage entry)\<rparr>
              else s)
           in case dispatch (rangeSelectors env lineCount (Selectors L)) entry (report s1) of
                Inl p \<Rightarrow> Inl p
              | Inr report' \<Rightarrow> Inr (s1\<lparr>report := report'\<rparr>)))"

text \<open>
  The scan loop. It ends with a return from inside the loop (the context is done) or by
  falling through when the scanner has no further line.
\<close>

datatype loopExit = Returned "string \<times> SimpleReport \<times> error option" | FellThrough scan

fun scanLoop :: "golib \<Rightarrow> environment \<Rightarrow> nat \<Rightarrow> string list \<Rightarrow> scan \<Rightarrow> panic + loopExit" where
  "scanLoop L env lineCount [] s = Inr (FellThrough s)"
| "scanLoop L env lineCount (line # rest) s =
     (if lineCount mod 100 = 0 \<and> ctxDone env lineCount
      then Inr (Returned (interrupted env Cancelled s))
      else case processLine L env lineCount line s of
             Inl p \<Rightarrow> Inl p
           | Inr s' \<Rightarrow> scanLoop L env (lineCount + 1) rest s')"

definition ProcessLogFile :: "golib \<Rightarrow> environment \<Rightarrow> panic + string \<times> SimpleReport \<times> error option" where
  "ProcessLogFile L env =
     (let s0 = \<lparr>errorsMap = [], fatalMap = [], report = emptyReport\<rparr> in
      case logFile env of
        NotExist \<Rightarrow> Inr ([], report s0, Some LogFileNotFound)
      | OpenFails \<Rightarrow> Inr ([], report s0, Some OpenError)
      | Opened \<Rightarrow>
          (case scanLoop L env 0 (scannedLines env) s0 of
             Inl p \<Rightarrow> Inl p
           | Inr (Returned result) \<Rightarrow> Inr result
           | Inr (FellThrough s) \<Rightarrow>
               if scannerErr env then Inr (interrupted env ReadError s)
               else Inr (buildErrorMessageFromLogs (rangeTally env (errorsMap s))
                           (rangeTally env (fatalMap s)),
                         report s, None)))"

section \<open>Sequences of calls of the report methods\<close>

text \<open>
  A call of \<^verbatim>\<open>Error\<close>, \<^verbatim>\<open>Warning\<close> or \<^verbatim>\<open>Info\<close> with its message and fields, the effect of a
  call on the report, and the formatted string a call contributes to each of the three lists.
\<close>

datatype reportCall =
  ErrorCall string "json list"
| WarningCall string "json list"
| InfoCall string "json list"

fun applyCall :: "golib \<Rightarrow> SimpleReport \<Rightarrow> reportCall \<Rightarrow> SimpleReport" where
  "applyCall L r (ErrorCall msg fieldv) = Error L r msg fieldv"
| "applyCall L r (WarningCall msg fieldv) = Warning L r msg fieldv"
| "applyCall L r (InfoCall msg fieldv) = Info L r msg fieldv"

fun errorsOf :: "golib \<Rightarrow> reportCall \<Rightarrow> string list" where
  "errorsOf L (ErrorCall msg fieldv) = [formatSimpleMessage L msg fieldv]"
| "errorsOf L _ = []"

fun warningsOf :: "golib \<Rightarrow> reportCall \<Rightarrow> string list" where
  "warningsOf L (WarningCall msg fieldv) = [formatSimpleMessage L msg fieldv]"
| "warningsOf L _ = []"

fun infosOf :: "golib \<Rightarrow> reportCall \<Rightarrow> string list" where
  "infosOf L (InfoCall msg fieldv) = [formatSimpleMessage L msg fieldv]"
| "infosOf L _ = []"

section \<open>Auxiliary predicates of the proofs\<close>

text \<open>No element of a list of lines holds a line feed.\<close>

definition noNewline :: "string list \<Rightarrow> bool" where
  "noNewline xs = list_all (\<lambda>x. nl \<notin> set x) xs"


text \<open>The second report holds everything the first one holds, in the same places.\<close>

definition extends :: "SimpleReport \<Rightarrow> SimpleReport \<Rightarrow> bool" where
  "extends r r' =
     (prefix (Errors r) (Errors r') \<and> prefix (Warnings r) (Warnings r') \<and>
      prefix (Infos r) (Infos r'))"

section \<open>Facts about the library functions\<close>

lemma stripUnits_Nil: "stripUnits us [] = []"
proof -
  have "find (\<lambda>u. u \<noteq> [] \<and> prefix u []) us = None"
    by (induction us) auto
  then show ?thesis by (simp add: stripUnits.simps)
qed

lemma TrimSpace_Nil: "TrimSpace [] = []"
  by (simp add: TrimSpace_def stripUnits_Nil)

lemma suffix_stripUnits: "suffix (stripUnits us s) s"
proof (induction us s rule: stripUnits.induct)
  case (1 us s)
  show ?case
  proof (cases "find (\<lambda>u. u \<noteq> [] \<and> prefix u s) us")
    case None
    then show ?thesis by (simp add: stripUnits.simps)
  next
    case (Some u)
    have "suffix (stripUnits us (drop (length u) s)) (drop (length u) s)"
      using Some by (rule "1.IH")
    then have "suffix (stripUnits us (drop (length u) s)) s"
      using suffix_drop suffix_order.trans by blast
    with Some show ?thesis by (simp add: stripUnits.simps [of us s])
  qed
qed

text \<open>The trimmed string is a contiguous piece of the string.\<close>

lemma sublist_TrimSpace: "sublist (TrimSpace s) s"
proof -
  let ?l = "stripUnits spaceRunes s"
  have "suffix (stripUnits (map rev spaceRunes) (rev ?l)) (rev ?l)"
    by (rule suffix_stripUnits)
  then have "prefix (TrimSpace s) ?l"
    unfolding TrimSpace_def by (simp add: suffix_to_prefix)
  moreover have "suffix ?l s" by (rule suffix_stripUnits)
  ultimately show ?thesis unfolding sublist_altdef' by blast
qed

section \<open>Facts about the summarizer\<close>

subsection \<open>The summarizer returns\<close>

lemma Split_not_Nil: "Split s \<noteq> []"
  by (induction s) (auto split: list.splits)

lemma Split_Cons:
  "Split (c # cs) = (if c = nl then [] # Split cs else (c # hd (Split cs)) # tl (Split cs))"
  using Split_not_Nil [of cs] by (cases "Split cs") auto

lemma Split_eq_single_Nil: "Split s = [[]] \<longleftrightarrow> s = []"
  by (cases s) (auto simp: Split_not_Nil split: list.splits)

lemma Split_eq_two_Nil: "Split s = [[], []] \<longleftrightarrow> s = [nl]"
proof (cases s)
  case Nil
  then show ?thesis by simp
next
  case (Cons c cs)
  then show ?thesis by (auto simp: Split_eq_single_Nil Split_not_Nil split: list.splits)
qed

lemma elemAt_last:
  "elemAt xs (int (length xs) - 1) = (if xs = [] then Inl IndexOutOfRange else Inr (last xs))"
  by (simp add: elemAt_def last_conv_nth nat_diff_distrib')

lemma stripEmptyEnds_Cons:
  "stripEmptyEnds (l # ls) =
     (let lines1 = (if l = [] then ls else l # ls)
      in if lines1 = [] then Inl IndexOutOfRange
         else Inr (if last lines1 = [] then butlast lines1 else lines1))"
proof -
  have first: "elemAt (l # ls) 0 = Inr l"
    by (simp add: elemAt_def)
  show ?thesis
    unfolding stripEmptyEnds_def first Let_def elemAt_last butlast_conv_take
    by (simp del: last.simps)
qed

lemma stripEmptyEnds_Split:
  assumes "s \<noteq> []"
  shows "\<exists>lines. stripEmptyEnds (Split s) = Inr lines \<and> (lines = [] \<longleftrightarrow> s = [nl])"
proof -
  obtain l ls where sp: "Split s = l # ls"
    using Split_not_Nil by (cases "Split s") auto
  show ?thesis
  proof (cases "l = []")
    case True
    with sp assms have ne: "ls \<noteq> []"
      using Split_eq_single_Nil by auto
    have "last ls = [] \<and> butlast ls = [] \<longleftrightarrow> ls = [[]]"
      using ne by (metis append_butlast_last_id append_Nil butlast.simps(2) last.simps)
    moreover have "ls = [[]] \<longleftrightarrow> s = [nl]"
      using sp True Split_eq_two_Nil [of s] by simp
    ultimately show ?thesis
      using True sp ne by (auto simp: stripEmptyEnds_Cons Let_def)
  next
    case False
    have "Split s \<noteq> [[], []]"
      using sp False by simp
    then have "s \<noteq> [nl]" by (simp add: Split_eq_two_Nil)
    with False sp show ?thesis
      by (cases "ls = []") (auto simp: stripEmptyEnds_Cons Let_def)
  qed
qed

lemma tailLine_returns:
  "0 \<le> k \<Longrightarrow> k < int (length lines) \<Longrightarrow> \<exists>r. tailLine lines k = Inr r"
  by (simp add: tailLine_def elemAt_def)

lemma cutoff_returns:
  assumes "1 \<le> i" "i < int (length lines)"
  shows "\<exists>r. cutoff lines i usefulLines cutLinesCount = Inr r"
proof -
  let ?n = "int (length lines)"
  have "\<exists>c. tailLine lines (?n - 1) = Inr c"
    using assms by (intro tailLine_returns) auto
  then obtain c where c: "tailLine lines (?n - 1) = Inr c" by blast
  have "\<exists>a. (if i \<le> ?n - 3 then tailLine lines (?n - 3) else Inr []) = Inr a"
    using tailLine_returns [of "?n - 3" lines] assms by (cases "i \<le> ?n - 3") auto
  then obtain a where a: "(if i \<le> ?n - 3 then tailLine lines (?n - 3) else Inr []) = Inr a"
    by blast
  have "\<exists>b. (if i \<le> ?n - 2 then tailLine lines (?n - 2) else Inr []) = Inr b"
    using tailLine_returns [of "?n - 2" lines] assms by (cases "i \<le> ?n - 2") auto
  then obtain b where b: "(if i \<le> ?n - 2 then tailLine lines (?n - 2) else Inr []) = Inr b"
    by blast
  show ?thesis
    unfolding cutoff_def Let_def a b c by simp
qed

lemma walk_returns:
  "1 \<le> i \<Longrightarrow> i + int (length rest) = int (length lines) \<Longrightarrow>
   \<exists>r. walk lines maxOutputLines i rest usefulLines contextBuffer cutLinesCount = Inr r"
proof (induction rest arbitrary: i usefulLines contextBuffer cutLinesCount)
  case Nil
  then show ?case by simp
next
  case (Cons line rest)
  have step: "\<And>u c k. \<exists>r. walk lines maxOutputLines (i + 1) rest u c k = Inr r"
    using Cons.prems by (intro Cons.IH) auto
  have cut: "\<exists>r. cutoff lines i usefulLines cutLinesCount = Inr r"
    using Cons.prems by (intro cutoff_returns) auto
  show ?case
    using step cut by simp
qed

lemma processLongMessage_returns:
  "lines \<noteq> [] \<Longrightarrow> \<exists>out. processLongMessage lines maxOutputLines = Inr out"
proof (cases lines)
  case Nil
  assume "lines \<noteq> []"
  with Nil show ?thesis by simp
next
  case (Cons first rest)
  have "\<exists>r. walk lines maxOutputLines 1 rest [TrimSpace first] [] 0 = Inr r"
    using Cons by (intro walk_returns) auto
  then obtain r where "walk lines maxOutputLines 1 rest [TrimSpace first] [] 0 = Inr r"
    by blast
  with Cons show ?thesis
    by (simp add: processLongMessage_def)
qed

lemma extractUsefulError_returns_iff:
  "(\<exists>out. extractUsefulError fullMessage maxOutputLines = Inr out)
     \<longleftrightarrow> (fullMessage \<noteq> [nl] \<or> 0 \<le> maxOutputLines)"
proof (cases "fullMessage = []")
  case True
  then show ?thesis by (simp add: extractUsefulError_def)
next
  case False
  then obtain lines where
    l: "stripEmptyEnds (Split fullMessage) = Inr lines" "lines = [] \<longleftrightarrow> fullMessage = [nl]"
    using stripEmptyEnds_Split by blast
  show ?thesis
  proof (cases "lines = []")
    case True
    with l False show ?thesis
      by (auto simp: extractUsefulError_def processLongMessage_def)
  next
    case ne: False
    with l processLongMessage_returns [OF ne, of maxOutputLines] False show ?thesis
      by (auto simp: extractUsefulError_def)
  qed
qed

subsection \<open>The number of emitted lines\<close>

lemma length_omitted: "length (omitted k) \<le> 1"
  by (simp add: omitted_def)

lemma tailLine_length: "tailLine lines k = Inr r \<Longrightarrow> length r \<le> 1"
  by (auto simp: tailLine_def split: sum.splits if_splits)

lemma cutoff_length:
  assumes "cutoff lines i usefulLines cutLinesCount = Inr r"
  shows "length r \<le> length usefulLines + 4"
proof -
  let ?n = "int (length lines)"
  from assms obtain a b c where
    a: "(if i \<le> ?n - 3 then tailLine lines (?n - 3) else Inr []) = Inr a" and
    b: "(if i \<le> ?n - 2 then tailLine lines (?n - 2) else Inr []) = Inr b" and
    c: "tailLine lines (?n - 1) = Inr c" and
    r: "r = usefulLines @ omitted (cutLinesCount + ?n - i - 2) @ a @ b @ c"
    unfolding cutoff_def Let_def by (auto split: sum.splits)
  have "length a \<le> 1" using a tailLine_length by (auto split: if_splits)
  moreover have "length b \<le> 1" using b tailLine_length by (auto split: if_splits)
  moreover have "length c \<le> 1" using c tailLine_length by auto
  moreover note length_omitted [of "cutLinesCount + ?n - i - 2"]
  ultimately show ?thesis unfolding r by simp
qed

lemma walk_length:
  "walk lines maxOutputLines i rest usefulLines contextBuffer cutLinesCount = Inr r \<Longrightarrow>
   length contextBuffer \<le> 2 \<Longrightarrow>
   int (length usefulLines) \<le> max (maxOutputLines + 3) 1 \<Longrightarrow>
   int (length r) \<le> max (maxOutputLines + 7) 5"
proof (induction rest arbitrary: i usefulLines contextBuffer cutLinesCount)
  case Nil
  then show ?case by auto
next
  case (Cons line rest)
  let ?t = "TrimSpace line"
  let ?om = "omitted (cutLinesCount - int (length contextBuffer))"
  note om = length_omitted [of "cutLinesCount - int (length contextBuffer)"]
  consider
    (skip) "?t = [] \<or> symbolPattern ?t" |
    (final) "\<not> (?t = [] \<or> symbolPattern ?t)" "i = int (length lines) - 1" |
    (cut) "\<not> (?t = [] \<or> symbolPattern ?t)" "i \<noteq> int (length lines) - 1"
          "int (length usefulLines) \<ge> maxOutputLines" |
    (critical) "\<not> (?t = [] \<or> symbolPattern ?t)" "i \<noteq> int (length lines) - 1"
          "\<not> int (length usefulLines) \<ge> maxOutputLines" "isCriticalLine ?t" |
    (noise) "\<not> (?t = [] \<or> symbolPattern ?t)" "i \<noteq> int (length lines) - 1"
          "\<not> int (length usefulLines) \<ge> maxOutputLines" "\<not> isCriticalLine ?t"
    by blast
  then show ?case
  proof cases
    case skip
    with Cons.prems have "walk lines maxOutputLines (i + 1) rest usefulLines contextBuffer cutLinesCount = Inr r"
      by auto
    then show ?thesis using Cons.prems(2,3) by (rule Cons.IH)
  next
    case final
    with Cons.prems have "r = usefulLines @ ?om @ contextBuffer @ [?t]"
      by auto
    with om Cons.prems(2,3) show ?thesis by auto
  next
    case cut
    with Cons.prems have "cutoff lines i usefulLines cutLinesCount = Inr r"
      by auto
    from cutoff_length [OF this] Cons.prems(3) show ?thesis by auto
  next
    case critical
    with Cons.prems have w: "walk lines maxOutputLines (i + 1) rest
        (usefulLines @ ?om @ contextBuffer @ [?t]) [] 0 = Inr r"
      by auto
    show ?thesis
    proof (rule Cons.IH [OF w])
      show "length ([]::string list) \<le> 2" by simp
      show "int (length (usefulLines @ ?om @ contextBuffer @ [?t])) \<le> max (maxOutputLines + 3) 1"
        using critical(3) om Cons.prems(2) by auto
    qed
  next
    case noise
    let ?c = "(if length contextBuffer \<ge> 2 then drop 1 contextBuffer else contextBuffer) @ [?t]"
    from noise Cons.prems have w: "walk lines maxOutputLines (i + 1) rest usefulLines ?c
        (cutLinesCount + 1) = Inr r"
      by auto
    show ?thesis
    proof (rule Cons.IH [OF w])
      show "length ?c \<le> 2" using Cons.prems(2) by auto
      show "int (length usefulLines) \<le> max (maxOutputLines + 3) 1" by (rule Cons.prems(3))
    qed
  qed
qed

subsection \<open>Emitted lines hold no line feed\<close>

lemma set_stripUnits: "set (stripUnits us s) \<subseteq> set s"
proof (induction us s rule: stripUnits.induct)
  case (1 us s)
  show ?case
  proof (cases "find (\<lambda>u. u \<noteq> [] \<and> prefix u s) us")
    case None
    then show ?thesis by (simp add: stripUnits.simps)
  next
    case (Some u)
    have "set (stripUnits us (drop (length u) s)) \<subseteq> set (drop (length u) s)"
      using Some by (rule "1.IH")
    also have "\<dots> \<subseteq> set s" by (rule set_drop_subset)
    finally show ?thesis using Some by (simp add: stripUnits.simps [of us s])
  qed
qed

lemma set_TrimSpace: "set (TrimSpace s) \<subseteq> set s"
proof -
  have "set (TrimSpace s) \<subseteq> set (rev (stripUnits spaceRunes s))"
    unfolding TrimSpace_def set_rev [of "stripUnits (map rev spaceRunes) (rev (stripUnits spaceRunes s))"]
    by (rule set_stripUnits)
  also have "\<dots> \<subseteq> set s"
    using set_stripUnits [of spaceRunes s] by simp
  finally show ?thesis .
qed

lemma set_digits: "set (digits n) \<subseteq> set ''0123456789''"
proof (induction n rule: digits.induct)
  case (1 n)
  have d: "''0123456789'' ! k \<in> set ''0123456789''" if "k < 10" for k
    using that by (intro nth_mem) simp
  show ?case
  proof (cases "n < 10")
    case True
    then show ?thesis using d [of n] by (simp add: digits.simps [of n])
  next
    case False
    have "set (digits n) = set (digits (n div 10)) \<union> {''0123456789'' ! (n mod 10)}"
      using False by (subst digits.simps) simp
    with "1.IH" [OF False] d [of "n mod 10"] show ?thesis by auto
  qed
qed

lemma nl_notin_itoa: "nl \<notin> set (itoa k)"
proof -
  have "nl \<notin> set (digits n)" for n
    using set_digits [of n] by auto
  then show ?thesis by (simp add: itoa_def)
qed

lemma noNewline_simps [simp]:
  "noNewline []"
  "noNewline (x # xs) \<longleftrightarrow> nl \<notin> set x \<and> noNewline xs"
  "noNewline (xs @ ys) \<longleftrightarrow> noNewline xs \<and> noNewline ys"
  by (simp_all add: noNewline_def)

lemma noNewline_mem: "noNewline xs \<Longrightarrow> x \<in> set xs \<Longrightarrow> nl \<notin> set x"
  by (simp add: noNewline_def list_all_iff)

lemma noNewline_subset: "noNewline ys \<Longrightarrow> set xs \<subseteq> set ys \<Longrightarrow> noNewline xs"
  by (auto simp: noNewline_def list_all_iff)

lemma nl_notin_TrimSpace: "nl \<notin> set s \<Longrightarrow> nl \<notin> set (TrimSpace s)"
  using set_TrimSpace [of s] by auto

lemma noNewline_omitted: "noNewline (omitted k)"
  using nl_notin_itoa [of k] by (simp add: omitted_def)

lemma noNewline_Split: "noNewline (Split s)"
proof (induction s)
  case Nil
  then show ?case by simp
next
  case (Cons c cs)
  obtain l ls where sp: "Split cs = l # ls"
    using Split_not_Nil by (cases "Split cs") auto
  with Cons show ?case by auto
qed

lemma Split_no_newline: "nl \<notin> set x \<Longrightarrow> Split x = [x]"
  by (induction x) auto

lemma Split_append_newline: "nl \<notin> set x \<Longrightarrow> Split (x @ nl # r) = x # Split r"
  by (induction x) auto

lemma Split_Join: "xs \<noteq> [] \<Longrightarrow> noNewline xs \<Longrightarrow> Split (Join xs [nl]) = xs"
proof (induction xs "[nl]" rule: Join.induct)
  case 1
  then show ?case by simp
next
  case (2 x)
  then show ?case by (simp add: Split_no_newline)
next
  case (3 x y ys)
  then show ?case by (simp add: Split_append_newline)
qed

lemma stripEmptyEnds_subset: "stripEmptyEnds ls = Inr r \<Longrightarrow> set r \<subseteq> set ls"
proof (cases ls)
  case Nil
  assume "stripEmptyEnds ls = Inr r"
  with Nil show ?thesis by (simp add: stripEmptyEnds_def elemAt_def)
next
  case (Cons l ls')
  assume "stripEmptyEnds ls = Inr r"
  with Cons show ?thesis
    by (auto simp: stripEmptyEnds_Cons Let_def split: if_splits dest: in_set_butlastD)
qed

lemma tailLine_noNewline: "noNewline lines \<Longrightarrow> tailLine lines k = Inr r \<Longrightarrow> noNewline r"
proof -
  assume n: "noNewline lines" and t: "tailLine lines k = Inr r"
  show ?thesis
  proof (cases "0 \<le> k \<and> k < int (length lines)")
    case True
    then have "lines ! nat k \<in> set lines" by (intro nth_mem) auto
    with n have "nl \<notin> set (TrimSpace (lines ! nat k))"
      by (intro nl_notin_TrimSpace) (rule noNewline_mem)
    with t True show ?thesis
      by (auto simp: tailLine_def elemAt_def split: if_splits)
  next
    case False
    with t show ?thesis by (simp add: tailLine_def elemAt_def)
  qed
qed

lemma cutoff_noNewline:
  assumes "noNewline lines" "noNewline usefulLines"
    and "cutoff lines i usefulLines cutLinesCount = Inr r"
  shows "noNewline r"
proof -
  let ?n = "int (length lines)"
  from assms(3) obtain a b c where
    a: "(if i \<le> ?n - 3 then tailLine lines (?n - 3) else Inr []) = Inr a" and
    b: "(if i \<le> ?n - 2 then tailLine lines (?n - 2) else Inr []) = Inr b" and
    c: "tailLine lines (?n - 1) = Inr c" and
    r: "r = usefulLines @ omitted (cutLinesCount + ?n - i - 2) @ a @ b @ c"
    unfolding cutoff_def Let_def by (auto split: sum.splits)
  have "noNewline a" using a tailLine_noNewline [OF assms(1)] by (auto split: if_splits)
  moreover have "noNewline b" using b tailLine_noNewline [OF assms(1)] by (auto split: if_splits)
  moreover have "noNewline c" using c tailLine_noNewline [OF assms(1)] by auto
  ultimately show ?thesis unfolding r using assms(2) by (simp add: noNewline_omitted)
qed

lemma walk_noNewline:
  "walk lines maxOutputLines i rest usefulLines contextBuffer cutLinesCount = Inr r \<Longrightarrow>
   noNewline lines \<Longrightarrow> noNewline rest \<Longrightarrow> noNewline usefulLines \<Longrightarrow> noNewline contextBuffer \<Longrightarrow>
   noNewline r"
proof (induction rest arbitrary: i usefulLines contextBuffer cutLinesCount)
  case Nil
  then show ?case by simp
next
  case (Cons line rest)
  let ?t = "TrimSpace line"
  let ?om = "omitted (cutLinesCount - int (length contextBuffer))"
  have t: "nl \<notin> set ?t" and rest: "noNewline rest"
    using Cons.prems(3) nl_notin_TrimSpace [of line] by auto
  have emitted: "noNewline (usefulLines @ ?om @ contextBuffer @ [?t])"
    using Cons.prems(4,5) t by (simp add: noNewline_omitted)
  have buffer: "noNewline ((if length contextBuffer \<ge> 2 then drop 1 contextBuffer else contextBuffer) @ [?t])"
    using Cons.prems(5) t noNewline_subset [OF Cons.prems(5) set_drop_subset [of 1 contextBuffer]]
    by simp
  consider
    (skip) "?t = [] \<or> symbolPattern ?t" |
    (final) "\<not> (?t = [] \<or> symbolPattern ?t)" "i = int (length lines) - 1" |
    (cut) "\<not> (?t = [] \<or> symbolPattern ?t)" "i \<noteq> int (length lines) - 1"
          "int (length usefulLines) \<ge> maxOutputLines" |
    (critical) "\<not> (?t = [] \<or> symbolPattern ?t)" "i \<noteq> int (length lines) - 1"
          "\<not> int (length usefulLines) \<ge> maxOutputLines" "isCriticalLine ?t" |
    (noise) "\<not> (?t = [] \<or> symbolPattern ?t)" "i \<noteq> int (length lines) - 1"
          "\<not> int (length usefulLines) \<ge> maxOutputLines" "\<not> isCriticalLine ?t"
    by blast
  then show ?case
  proof cases
    case skip
    with Cons.prems(1) have "walk lines maxOutputLines (i + 1) rest usefulLines contextBuffer cutLinesCount = Inr r"
      by auto
    then show ?thesis using Cons.prems(2) rest Cons.prems(4,5) by (rule Cons.IH)
  next
    case final
    with Cons.prems(1) have "r = usefulLines @ ?om @ contextBuffer @ [?t]"
      by auto
    with emitted show ?thesis by simp
  next
    case cut
    with Cons.prems(1) have "cutoff lines i usefulLines cutLinesCount = Inr r"
      by auto
    with Cons.prems(2,4) show ?thesis by (rule cutoff_noNewline)
  next
    case critical
    with Cons.prems(1) have "walk lines maxOutputLines (i + 1) rest
        (usefulLines @ ?om @ contextBuffer @ [?t]) [] 0 = Inr r"
      by auto
    then show ?thesis using Cons.prems(2) rest emitted by (rule Cons.IH) simp
  next
    case noise
    with Cons.prems(1) have "walk lines maxOutputLines (i + 1) rest usefulLines
        ((if length contextBuffer \<ge> 2 then drop 1 contextBuffer else contextBuffer) @ [?t])
        (cutLinesCount + 1) = Inr r"
      by auto
    then show ?thesis using Cons.prems(2) rest Cons.prems(4) buffer by (rule Cons.IH)
  qed
qed

lemma cutoff_prefix: "cutoff lines i usefulLines cutLinesCount = Inr r \<Longrightarrow> prefix usefulLines r"
  unfolding cutoff_def Let_def by (auto split: sum.splits)

lemma walk_prefix:
  "walk lines maxOutputLines i rest usefulLines contextBuffer cutLinesCount = Inr r \<Longrightarrow>
   prefix usefulLines r"
proof (induction rest arbitrary: i usefulLines contextBuffer cutLinesCount)
  case Nil
  then show ?case by simp
next
  case (Cons line rest)
  let ?t = "TrimSpace line"
  let ?om = "omitted (cutLinesCount - int (length contextBuffer))"
  consider
    (skip) "?t = [] \<or> symbolPattern ?t" |
    (final) "\<not> (?t = [] \<or> symbolPattern ?t)" "i = int (length lines) - 1" |
    (cut) "\<not> (?t = [] \<or> symbolPattern ?t)" "i \<noteq> int (length lines) - 1"
          "int (length usefulLines) \<ge> maxOutputLines" |
    (critical) "\<not> (?t = [] \<or> symbolPattern ?t)" "i \<noteq> int (length lines) - 1"
          "\<not> int (length usefulLines) \<ge> maxOutputLines" "isCriticalLine ?t" |
    (noise) "\<not> (?t = [] \<or> symbolPattern ?t)" "i \<noteq> int (length lines) - 1"
          "\<not> int (length usefulLines) \<ge> maxOutputLines" "\<not> isCriticalLine ?t"
    by blast
  then show ?case
  proof cases
    case skip
    with Cons.prems have "walk lines maxOutputLines (i + 1) rest usefulLines contextBuffer cutLinesCount = Inr r"
      by auto
    then show ?thesis by (rule Cons.IH)
  next
    case final
    with Cons.prems show ?thesis by auto
  next
    case cut
    with Cons.prems have "cutoff lines i usefulLines cutLinesCount = Inr r"
      by auto
    then show ?thesis by (rule cutoff_prefix)
  next
    case critical
    with Cons.prems have "walk lines maxOutputLines (i + 1) rest
        (usefulLines @ ?om @ contextBuffer @ [?t]) [] 0 = Inr r"
      by auto
    then have "prefix (usefulLines @ ?om @ contextBuffer @ [?t]) r" by (rule Cons.IH)
    then show ?thesis by (rule append_prefixD)
  next
    case noise
    with Cons.prems have "walk lines maxOutputLines (i + 1) rest usefulLines
        ((if length contextBuffer \<ge> 2 then drop 1 contextBuffer else contextBuffer) @ [?t])
        (cutLinesCount + 1) = Inr r"
      by auto
    then show ?thesis by (rule Cons.IH)
  qed
qed

subsection \<open>The first and the last emitted line\<close>

lemma tailLine_in_range:
  "0 \<le> k \<Longrightarrow> k < int (length lines) \<Longrightarrow>
   tailLine lines k =
     Inr (if TrimSpace (lines ! nat k) \<noteq> [] \<and> \<not> symbolPattern (TrimSpace (lines ! nat k))
          then [TrimSpace (lines ! nat k)] else [])"
  by (simp add: tailLine_def elemAt_def)

lemma cutoff_last:
  assumes "cutoff lines i usefulLines cutLinesCount = Inr r" "lines \<noteq> []"
    and "TrimSpace (last lines) \<noteq> []" "\<not> symbolPattern (TrimSpace (last lines))"
  shows "last r = TrimSpace (last lines)"
proof -
  let ?n = "int (length lines)"
  have l: "lines ! nat (?n - 1) = last lines"
    using assms(2) by (simp add: last_conv_nth nat_diff_distrib')
  have c: "tailLine lines (?n - 1) = Inr [TrimSpace (last lines)]"
    using assms(2-4) by (subst tailLine_in_range) (auto simp: l)
  from assms(1) obtain a b where
    "r = usefulLines @ omitted (cutLinesCount + ?n - i - 2) @ a @ b @ [TrimSpace (last lines)]"
    unfolding cutoff_def Let_def c by (auto split: sum.splits)
  then show ?thesis by simp
qed

lemma walk_last:
  "walk lines maxOutputLines i rest usefulLines contextBuffer cutLinesCount = Inr r \<Longrightarrow>
   rest \<noteq> [] \<Longrightarrow> rest = drop (nat i) lines \<Longrightarrow> 0 \<le> i \<Longrightarrow>
   TrimSpace (last lines) \<noteq> [] \<Longrightarrow> \<not> symbolPattern (TrimSpace (last lines)) \<Longrightarrow>
   last r = TrimSpace (last lines)"
proof (induction rest arbitrary: i usefulLines contextBuffer cutLinesCount)
  case Nil
  then show ?case by simp
next
  case (Cons line rest)
  let ?t = "TrimSpace line"
  let ?om = "omitted (cutLinesCount - int (length contextBuffer))"
  have "drop (nat i) lines \<noteq> []"
    using Cons.prems(3) [symmetric] by simp
  then have len: "nat i < length lines" by simp
  then have ne: "lines \<noteq> []" by auto
  have "drop (nat (i + 1)) lines = tl (drop (nat i) lines)"
    using Cons.prems(4) by (simp add: nat_add_distrib tl_drop drop_Suc)
  then have rest: "rest = drop (nat (i + 1)) lines"
    using Cons.prems(3) [symmetric] by simp
  have fin: "rest = [] \<longleftrightarrow> i = int (length lines) - 1"
    using rest len Cons.prems(4) by auto
  have lastline: "line = last lines" if "rest = []"
  proof -
    have "last lines = last (drop (nat i) lines)"
      using len by simp
    also have "\<dots> = line" using Cons.prems(3) [symmetric] that by simp
    finally show ?thesis by simp
  qed
  consider
    (skip) "?t = [] \<or> symbolPattern ?t" |
    (final) "\<not> (?t = [] \<or> symbolPattern ?t)" "i = int (length lines) - 1" |
    (cut) "\<not> (?t = [] \<or> symbolPattern ?t)" "i \<noteq> int (length lines) - 1"
          "int (length usefulLines) \<ge> maxOutputLines" |
    (critical) "\<not> (?t = [] \<or> symbolPattern ?t)" "i \<noteq> int (length lines) - 1"
          "\<not> int (length usefulLines) \<ge> maxOutputLines" "isCriticalLine ?t" |
    (noise) "\<not> (?t = [] \<or> symbolPattern ?t)" "i \<noteq> int (length lines) - 1"
          "\<not> int (length usefulLines) \<ge> maxOutputLines" "\<not> isCriticalLine ?t"
    by blast
  then show ?case
  proof cases
    case skip
    with Cons.prems(1) have w: "walk lines maxOutputLines (i + 1) rest usefulLines contextBuffer cutLinesCount = Inr r"
      by auto
    have "rest \<noteq> []"
      using lastline skip Cons.prems(5,6) by auto
    from Cons.IH [OF w this rest _ Cons.prems(5,6)] Cons.prems(4) show ?thesis by simp
  next
    case final
    with Cons.prems(1) have "r = usefulLines @ ?om @ contextBuffer @ [?t]"
      by auto
    moreover have "line = last lines" using final(2) fin lastline by simp
    ultimately show ?thesis by simp
  next
    case cut
    with Cons.prems(1) have "cutoff lines i usefulLines cutLinesCount = Inr r"
      by auto
    then show ?thesis using ne Cons.prems(5,6) by (rule cutoff_last)
  next
    case critical
    with Cons.prems(1) have w: "walk lines maxOutputLines (i + 1) rest
        (usefulLines @ ?om @ contextBuffer @ [?t]) [] 0 = Inr r"
      by auto
    have "rest \<noteq> []" using critical(2) fin by simp
    from Cons.IH [OF w this rest _ Cons.prems(5,6)] Cons.prems(4) show ?thesis by simp
  next
    case noise
    with Cons.prems(1) have w: "walk lines maxOutputLines (i + 1) rest usefulLines
        ((if length contextBuffer \<ge> 2 then drop 1 contextBuffer else contextBuffer) @ [?t])
        (cutLinesCount + 1) = Inr r"
      by auto
    have "rest \<noteq> []" using noise(2) fin by simp
    from Cons.IH [OF w this rest _ Cons.prems(5,6)] Cons.prems(4) show ?thesis by simp
  qed
qed

text \<open>The emitted lines of the windowed path, as the lines of the returned string.\<close>

lemma extractUsefulError_long:
  assumes "stripEmptyEnds (Split fullMessage) = Inr lines"
    and "maxOutputLines < int (length lines)"
    and "extractUsefulError fullMessage maxOutputLines = Inr out"
  shows "lines \<noteq> [] \<and>
     walk lines maxOutputLines 1 (tl lines) [TrimSpace (hd lines)] [] 0 = Inr (Split out)"
proof -
  have "fullMessage \<noteq> []"
    using assms(1) by (auto simp: stripEmptyEnds_def elemAt_def)
  with assms have p: "processLongMessage lines maxOutputLines = Inr out"
    by (simp add: extractUsefulError_def)
  then obtain first rest where l: "lines = first # rest"
    by (cases lines) (auto simp: processLongMessage_def)
  with p obtain r where
    w: "walk lines maxOutputLines 1 rest [TrimSpace first] [] 0 = Inr r" and o: "out = Join r [nl]"
    by (auto simp: processLongMessage_def split: sum.splits)
  have lines: "noNewline lines"
    using stripEmptyEnds_subset [OF assms(1)] noNewline_Split [of fullMessage]
    by (rule noNewline_subset [rotated])
  then have "noNewline rest" and "nl \<notin> set (TrimSpace first)"
    using l nl_notin_TrimSpace [of first] by auto
  with w lines have "noNewline r"
    by (intro walk_noNewline [OF w]) auto
  moreover have "r \<noteq> []"
    using walk_prefix [OF w] by auto
  ultimately have "Split out = r"
    unfolding o by (intro Split_Join)
  with w l show ?thesis by simp
qed

section \<open>Facts about the report\<close>

lemma firstSeen_snoc:
  "rev (remdups (rev (ws @ [w]))) =
     (if w \<in> set ws then rev (remdups (rev ws)) else rev (remdups (rev ws)) @ [w])"
  by simp

lemma set_firstSeen: "set (rev (remdups (rev ws))) = set ws"
  by simp

lemma Errors_after_calls:
  "Errors (foldl (applyCall L) emptyReport calls) = concat (map (errorsOf L) calls)"
proof (induction calls rule: rev_induct)
  case Nil
  then show ?case by (simp add: emptyReport_def)
next
  case (snoc c calls)
  then show ?case by (cases c) (simp_all add: Error_def Warning_def Info_def)
qed

lemma Infos_after_calls:
  "Infos (foldl (applyCall L) emptyReport calls) = concat (map (infosOf L) calls)"
proof (induction calls rule: rev_induct)
  case Nil
  then show ?case by (simp add: emptyReport_def)
next
  case (snoc c calls)
  then show ?case by (cases c) (simp_all add: Error_def Warning_def Info_def)
qed

lemma Warnings_after_calls:
  "Warnings (foldl (applyCall L) emptyReport calls)
     = rev (remdups (rev (concat (map (warningsOf L) calls))))"
proof (induction calls rule: rev_induct)
  case Nil
  then show ?case by (simp add: emptyReport_def)
next
  case (snoc c calls)
  let ?r = "foldl (applyCall L) emptyReport calls"
  let ?ws = "concat (map (warningsOf L) calls)"
  have mem: "set (Warnings ?r) = set ?ws"
    unfolding snoc.IH by (rule set_firstSeen)
  show ?case
  proof (cases c)
    case (ErrorCall msg fieldv)
    with snoc show ?thesis by (simp add: Error_def)
  next
    case (WarningCall msg fieldv)
    let ?f = "formatSimpleMessage L msg fieldv"
    have "Warnings (foldl (applyCall L) emptyReport (calls @ [c])) = Warnings (Warning L ?r msg fieldv)"
      using WarningCall by simp
    also have "\<dots> = (if ?f \<in> set ?ws then Warnings ?r else Warnings ?r @ [?f])"
      using mem by (simp add: Warning_def)
    also have "\<dots> = rev (remdups (rev (?ws @ [?f])))"
      unfolding firstSeen_snoc snoc.IH ..
    also have "?ws @ [?f] = concat (map (warningsOf L) (calls @ [c]))"
      using WarningCall by simp
    finally show ?thesis .
  next
    case (InfoCall msg fieldv)
    with snoc show ?thesis by (simp add: Info_def)
  qed
qed

lemma report_example:
  "foldl (applyCall L) emptyReport
     [WarningCall ''w'' [], ErrorCall ''e'' [], WarningCall ''w'' [], ErrorCall ''e'' [],
      InfoCall ''i'' [], InfoCall ''i'' []]
   = \<lparr>Errors = [''e'', ''e''], Warnings = [''w''], Infos = [''i'', ''i'']\<rparr>"
  by (simp add: emptyReport_def Error_def Warning_def Info_def formatSimpleMessage_def)

section \<open>Facts about the severity digest\<close>

lemma failLoop_eq:
  "failLoop logs totalCount uniqueMessages =
     (totalCount + sum_list (map snd logs),
      uniqueMessages @ map (\<lambda>(msg, count). if count > 1 then itoa count @ ''x '' @ msg else msg) logs)"
  by (induction logs arbitrary: totalCount uniqueMessages) auto

lemma Join_empty_sep: "Join xs [] = concat xs"
  by (induction xs "[]::string" rule: Join.induct) auto

lemma formatFailMsg_eq:
  "formatFailMsg logs logLevel =
     (if logs = [] then []
      else itoa (sum_list (map snd logs)) @ '' '' @ logLevel @ '': '' @
           concat (map (\<lambda>(msg, count). if count > 1 then itoa count @ ''x '' @ msg else msg) logs))"
  by (simp add: formatFailMsg_def failLoop_eq Join_empty_sep)

lemma formatFailMsg_Nil_iff: "formatFailMsg logs logLevel = [] \<longleftrightarrow> logs = []"
  by (simp add: formatFailMsg_eq)

section \<open>Facts about the record parser\<close>

lemma Level_parseField_other: "fst kv \<noteq> ''level'' \<Longrightarrow> Level (parseField L entry kv) = Level entry"
  by (cases kv) (auto simp: parseField_def split: json.splits)

lemma Level_foldl_parseField_other:
  "''level'' \<notin> fst ` set rawData \<Longrightarrow> Level (foldl (parseField L) entry rawData) = Level entry"
proof (induction rawData arbitrary: entry)
  case Nil
  then show ?case by simp
next
  case (Cons kv rawData)
  from Cons.prems have "fst kv \<noteq> ''level''" and "''level'' \<notin> fst ` set rawData"
    by auto
  then show ?case by (simp add: Level_parseField_other Cons.IH)
qed

text \<open>The level a decoded \<^verbatim>\<open>level\<close> field sets, if any.\<close>

lemma Level_parseField_level:
  "Level (parseField L entry (''level'', v)) =
     (case v of
        JNum f \<Rightarrow> (case renovateLogLevels (goInt L f) of None \<Rightarrow> Level entry | Some s \<Rightarrow> s)
      | _ \<Rightarrow> Level entry)"
  by (simp add: parseField_def split: json.splits option.splits)

lemma Level_foldl_parseField:
  "distinct (map fst rawData) \<Longrightarrow>
   Level (foldl (parseField L) entry rawData) =
     (case map_of rawData ''level'' of
        Some (JNum f) \<Rightarrow> (case renovateLogLevels (goInt L f) of None \<Rightarrow> Level entry | Some s \<Rightarrow> s)
      | _ \<Rightarrow> Level entry)"
proof (induction rawData arbitrary: entry)
  case Nil
  then show ?case by simp
next
  case (Cons kv rawData)
  obtain k v where kv: "kv = (k, v)" by (cases kv)
  show ?case
  proof (cases "k = ''level''")
    case True
    with Cons.prems kv have "''level'' \<notin> fst ` set rawData" by auto
    then have "Level (foldl (parseField L) (parseField L entry kv) rawData)
        = Level (parseField L entry kv)"
      by (rule Level_foldl_parseField_other)
    with True kv show ?thesis
      by (simp add: Level_parseField_level split: json.splits)
  next
    case False
    with kv have "Level (parseField L entry kv) = Level entry"
      by (simp add: Level_parseField_other)
    with Cons False kv show ?thesis by (simp split: option.splits json.splits)
  qed
qed

lemma renovateLogLevels_eq:
  "renovateLogLevels n =
     (if n = 10 then Some ''TRACE'' else if n = 20 then Some ''DEBUG''
      else if n = 30 then Some ''INFO'' else if n = 40 then Some ''WARN''
      else if n = 50 then Some ''ERROR'' else if n = 60 then Some ''FATAL'' else None)"
  by (simp add: renovateLogLevels_def)

lemma truncToZero_of_int: "truncToZero (of_int n) = n"
  by (simp add: truncToZero_def)

lemma truncToZero_ten_and_a_half: "truncToZero (21 / 2) = 10"
  by code_simp

section \<open>Facts about the check functions and the selector loop\<close>





lemma Info_extends: "extends r (Info L r msg fieldv)"
  by (simp add: extends_def Info_def)





lemma platformCommitError_returns_iff:
  "(\<exists>r'. platformCommitError L line r = Inr r') \<longleftrightarrow>
     (\<forall>errData. extra line ''err'' = JObj errData \<longrightarrow>
        (\<exists>task commands. mapIndex errData ''task'' = JObj task \<and>
           mapIndex task ''commands'' = JArr commands))"
proof (cases "extra line ''err''")
  case (JObj errData)
  show ?thesis
  proof (cases "mapIndex errData ''task''")
    case task: (JObj task)
    with JObj show ?thesis
      by (cases "mapIndex task ''commands''") (simp_all add: platformCommitError_def Let_def)
  qed (use JObj in \<open>simp_all add: platformCommitError_def Let_def\<close>)
qed (simp_all add: platformCommitError_def)







lemma dispatch_filter:
  "dispatch sels entry r =
     dispatch (filter (\<lambda>(selector, checkFunc). Contains (Msg entry) selector) sels) entry r"
  by (induction sels entry r rule: dispatch.induct) (auto split: sum.splits)




section \<open>Facts about the scan loop\<close>

lemma processLine_ctxDone: "processLine L (env\<lparr>ctxDone := d\<rparr>) c line s = processLine L env c line s"
  by (simp add: processLine_def cong: sum.case_cong)

lemma interrupted_ctxDone: "interrupted (env\<lparr>ctxDone := d\<rparr>) err s = interrupted env err s"
  by (simp add: interrupted_def)

text \<open>
  A scan that no poll of the context stops during its first \<open>m\<close> lines goes through the
  state that the uninterrupted scan of these lines ends in.
\<close>

lemma scanLoop_first_lines:
  "\<forall>j. c \<le> j \<and> j < c + m \<longrightarrow> \<not> (j mod 100 = 0 \<and> ctxDone env j) \<Longrightarrow>
   m \<le> length rest \<Longrightarrow>
   scanLoop L (env\<lparr>ctxDone := \<lambda>n. False\<rparr>) c (take m rest) s = Inr (FellThrough s') \<Longrightarrow>
   scanLoop L env c rest s = scanLoop L env (c + m) (drop m rest) s'"
proof (induction m arbitrary: c rest s)
  case 0
  then show ?case by simp
next
  case (Suc m)
  from Suc.prems(2) obtain line rest' where rest: "rest = line # rest'"
    by (cases rest) auto
  from Suc.prems(1) have now: "\<not> (c mod 100 = 0 \<and> ctxDone env c)"
    by auto
  from Suc.prems(3) rest obtain s1 where
    p: "processLine L env c line s = Inr s1" and
    l: "scanLoop L (env\<lparr>ctxDone := \<lambda>n. False\<rparr>) (c + 1) (take m rest') s1 = Inr (FellThrough s')"
    by (auto simp: processLine_ctxDone split: sum.splits)
  have "scanLoop L env (c + 1) rest' s1 = scanLoop L env (c + 1 + m) (drop m rest') s'"
  proof (rule Suc.IH [OF _ _ l])
    show "\<forall>j. c + 1 \<le> j \<and> j < c + 1 + m \<longrightarrow> \<not> (j mod 100 = 0 \<and> ctxDone env j)"
      using Suc.prems(1) by auto
    show "m \<le> length rest'" using Suc.prems(2) rest by simp
  qed
  with now p rest show ?case by auto
qed

section \<open>Three worked messages\<close>

text \<open>
  A nine-line message with a critical line in the middle, summarized with budget 2; a
  four-line message whose last line is symbol-only, summarized with budget 3; and a three-line
  message summarized with budget 1.
\<close>

lemma nine_TrimSpace:
  "TrimSpace ''a'' = ''a''" "TrimSpace ''n1'' = ''n1''" "TrimSpace ''n2'' = ''n2''"
  "TrimSpace ''n3'' = ''n3''" "TrimSpace ''failed x'' = ''failed x''" "TrimSpace ''y'' = ''y''"
  "TrimSpace ''t1'' = ''t1''" "TrimSpace ''t2'' = ''t2''" "TrimSpace ''t3'' = ''t3''"
  by code_simp+

lemma nine_symbolPattern:
  "\<not> symbolPattern ''n1''" "\<not> symbolPattern ''n2''" "\<not> symbolPattern ''n3''"
  "\<not> symbolPattern ''failed x''" "\<not> symbolPattern ''y''" "\<not> symbolPattern ''t1''"
  "\<not> symbolPattern ''t2''" "\<not> symbolPattern ''t3''"
  by code_simp+

lemma nine_isCriticalLine:
  "\<not> isCriticalLine ''n1''" "\<not> isCriticalLine ''n2''" "\<not> isCriticalLine ''n3''"
  "isCriticalLine ''failed x''"
  by code_simp+

lemma itoa_small: "itoa 1 = ''1''" "itoa 2 = ''2''"
  by (simp_all add: itoa_def digits.simps)

lemma nine_lines:
  "stripEmptyEnds (Split (''a'' @ [nl] @ ''n1'' @ [nl] @ ''n2'' @ [nl] @ ''n3'' @ [nl] @ ''failed x''
      @ [nl] @ ''y'' @ [nl] @ ''t1'' @ [nl] @ ''t2'' @ [nl] @ ''t3''))
   = Inr [''a'', ''n1'', ''n2'', ''n3'', ''failed x'', ''y'', ''t1'', ''t2'', ''t3'']"
  by (simp add: stripEmptyEnds_def elemAt_def)

lemma nine_walk:
  "walk [''a'', ''n1'', ''n2'', ''n3'', ''failed x'', ''y'', ''t1'', ''t2'', ''t3''] 2 1
     [''n1'', ''n2'', ''n3'', ''failed x'', ''y'', ''t1'', ''t2'', ''t3''] [''a''] [] 0 =
   Inr [''a'', ''[... 1 lines omitted ...]'', ''n2'', ''n3'', ''failed x'',
        ''[... 2 lines omitted ...]'', ''t1'', ''t2'', ''t3'']"
  by (simp add: nine_TrimSpace nine_symbolPattern nine_isCriticalLine itoa_small
      cutoff_def tailLine_def elemAt_def omitted_def)

lemma nine_summary:
  "extractUsefulError (''a'' @ [nl] @ ''n1'' @ [nl] @ ''n2'' @ [nl] @ ''n3'' @ [nl] @ ''failed x''
      @ [nl] @ ''y'' @ [nl] @ ''t1'' @ [nl] @ ''t2'' @ [nl] @ ''t3'') 2
   = Inr (''a'' @ [nl] @ ''[... 1 lines omitted ...]'' @ [nl] @ ''n2'' @ [nl] @ ''n3'' @ [nl]
       @ ''failed x'' @ [nl] @ ''[... 2 lines omitted ...]'' @ [nl] @ ''t1'' @ [nl] @ ''t2''
       @ [nl] @ ''t3'')"
  unfolding extractUsefulError_def nine_lines
  by (simp add: processLongMessage_def nine_TrimSpace nine_walk del: walk.simps)

lemma nine_summary_lines:
  "Split (''a'' @ [nl] @ ''[... 1 lines omitted ...]'' @ [nl] @ ''n2'' @ [nl] @ ''n3'' @ [nl]
       @ ''failed x'' @ [nl] @ ''[... 2 lines omitted ...]'' @ [nl] @ ''t1'' @ [nl] @ ''t2''
       @ [nl] @ ''t3'')
   = [''a'', ''[... 1 lines omitted ...]'', ''n2'', ''n3'', ''failed x'',
      ''[... 2 lines omitted ...]'', ''t1'', ''t2'', ''t3'']"
  by simp

lemma four_TrimSpace:
  "TrimSpace ''b'' = ''b''" "TrimSpace ''c'' = ''c''" "TrimSpace ''==='' = ''===''"
  by code_simp+

lemma four_symbolPattern:
  "\<not> symbolPattern ''b''" "\<not> symbolPattern ''c''" "symbolPattern ''===''"
  by code_simp+

lemma four_isCriticalLine:
  "\<not> isCriticalLine ''b''" "\<not> isCriticalLine ''c''"
  by code_simp+

lemma four_summary:
  "extractUsefulError (''a'' @ [nl] @ ''b'' @ [nl] @ ''c'' @ [nl] @ ''==='') 3 = Inr ''a''"
  by (simp add: extractUsefulError_def stripEmptyEnds_def elemAt_def processLongMessage_def
      nine_TrimSpace four_TrimSpace four_symbolPattern four_isCriticalLine)

lemma three_lines:
  "stripEmptyEnds (Split (''a'' @ [nl] @ ''b'' @ [nl] @ ''c'')) = Inr [''a'', ''b'', ''c'']"
  by (simp add: stripEmptyEnds_def elemAt_def)

lemma three_summary:
  "extractUsefulError (''a'' @ [nl] @ ''b'' @ [nl] @ ''c'') 1 = Inr (''a'' @ [nl] @ ''b'' @ [nl] @ ''c'')"
  by (simp add: extractUsefulError_def stripEmptyEnds_def elemAt_def processLongMessage_def
      nine_TrimSpace four_TrimSpace four_symbolPattern cutoff_def tailLine_def omitted_def)

lemma three_summary_lines:
  "Split (''a'' @ [nl] @ ''b'' @ [nl] @ ''c'') = [''a'', ''b'', ''c'']"
  by simp

section \<open>The summarizer's fast path\<close>

text \<open>
  Claim C8. When the message is empty, or has at most \<open>maxOutputLines\<close> lines once one
  empty first line and one empty last line are dropped, \<^verbatim>\<open>extractUsefulError\<close> returns
  the whitespace-trimmed message itself: a contiguous piece of the message, with nothing
  inserted.
\<close>

theorem extractUsefulError_short:
  assumes "fullMessage = [] \<or>
    (\<exists>lines. stripEmptyEnds (Split fullMessage) = Inr lines \<and> int (length lines) \<le> maxOutputLines)"
  shows "extractUsefulError fullMessage maxOutputLines = Inr (TrimSpace fullMessage) \<and>
    sublist (TrimSpace fullMessage) fullMessage"
  using assms by (auto simp: extractUsefulError_def TrimSpace_Nil sublist_TrimSpace)

theorem extractUsefulError_short_witness:
  "stripEmptyEnds (Split (''  a'' @ [nl] @ ''b '' @ [nl])) = Inr [''  a'', ''b '']
   \<and> extractUsefulError (''  a'' @ [nl] @ ''b '' @ [nl]) 2 = Inr (''a'' @ [nl] @ ''b'')"
proof -
  have s: "stripEmptyEnds (Split (''  a'' @ [nl] @ ''b '' @ [nl])) = Inr [''  a'', ''b '']"
    by (simp add: stripEmptyEnds_def elemAt_def)
  have t: "TrimSpace (''  a'' @ [nl] @ ''b '' @ [nl]) = ''a'' @ [nl] @ ''b''"
    by code_simp
  from s have h: "''  a'' @ [nl] @ ''b '' @ [nl] = [] \<or>
      (\<exists>lines. stripEmptyEnds (Split (''  a'' @ [nl] @ ''b '' @ [nl])) = Inr lines \<and>
         int (length lines) \<le> 2)"
    by simp
  from extractUsefulError_short [OF h] have "extractUsefulError (''  a'' @ [nl] @ ''b '' @ [nl]) 2
      = Inr (TrimSpace (''  a'' @ [nl] @ ''b '' @ [nl]))"
    by (rule conjunct1)
  with s t show ?thesis by simp
qed

section \<open>The summarizer returns\<close>

text \<open>
  Claim C10, amended. \<^verbatim>\<open>extractUsefulError\<close> is a total function of the model (its loop is
  a structural recursion over the lines), and it returns a string, with every slice read in
  bounds, for every message and every line budget but one case: the message that is a single
  line feed, with a negative budget. There both lines are stripped, the empty slice is longer
  than the budget, and \<^verbatim>\<open>processLongMessage\<close> reads \<^verbatim>\<open>lines[0]\<close>.
\<close>

theorem extractUsefulError_returns:
  "(\<exists>out. extractUsefulError fullMessage maxOutputLines = Inr out)
     \<longleftrightarrow> (fullMessage \<noteq> [nl] \<or> 0 \<le> maxOutputLines)"
  by (rule extractUsefulError_returns_iff)

theorem extractUsefulError_returns_witness:
  "''x'' \<noteq> [nl] \<and> (\<exists>out. extractUsefulError ''x'' (- 1) = Inr out)"
  using extractUsefulError_returns [of "''x''" "- 1"] by simp

text \<open>The input on which claim C10 fails as stated.\<close>

theorem extractUsefulError_newline_negative_budget:
  "extractUsefulError [nl] (- 1) = Inl IndexOutOfRange"
  by (simp add: extractUsefulError_def stripEmptyEnds_def elemAt_def processLongMessage_def)

section \<open>What the summary keeps of the first and the final line\<close>

text \<open>
  Claim C3, amended. On the fast path the output is the whole trimmed message. On the windowed
  path the first line of the output is the trimmed first line of the stripped input, and the
  last line of the output is the trimmed final line whenever that line is neither blank nor
  symbol-only. A blank or symbol-only final line is skipped by the filter at the head of the
  loop like any other such line.
\<close>

theorem summary_keeps_first_and_final_line:
  assumes "stripEmptyEnds (Split fullMessage) = Inr lines"
    and "extractUsefulError fullMessage maxOutputLines = Inr out"
  shows "(int (length lines) \<le> maxOutputLines \<longrightarrow> out = TrimSpace fullMessage) \<and>
    (maxOutputLines < int (length lines) \<longrightarrow>
       hd (Split out) = TrimSpace (hd lines) \<and>
       (TrimSpace (last lines) \<noteq> [] \<and> \<not> symbolPattern (TrimSpace (last lines)) \<longrightarrow>
          last (Split out) = TrimSpace (last lines)))"
proof (intro conjI impI)
  assume "int (length lines) \<le> maxOutputLines"
  with assms show "out = TrimSpace fullMessage"
    by (auto simp: extractUsefulError_def TrimSpace_Nil split: if_splits)
next
  assume long: "maxOutputLines < int (length lines)"
  from extractUsefulError_long [OF assms(1) long assms(2)]
  have ne: "lines \<noteq> []"
    and w: "walk lines maxOutputLines 1 (tl lines) [TrimSpace (hd lines)] [] 0 = Inr (Split out)"
    by simp_all
  from walk_prefix [OF w] show "hd (Split out) = TrimSpace (hd lines)"
    by (auto simp: prefix_def)
  assume final: "TrimSpace (last lines) \<noteq> [] \<and> \<not> symbolPattern (TrimSpace (last lines))"
  show "last (Split out) = TrimSpace (last lines)"
  proof (cases "tl lines = []")
    case True
    with ne have "lines = [hd lines]" by (cases lines) auto
    then have l: "last lines = hd lines" by (metis last.simps)
    from w True have "Split out = [TrimSpace (hd lines)]" by simp
    with l show ?thesis by simp
  next
    case False
    have "tl lines = drop (nat 1) lines" by (simp add: drop_Suc)
    from walk_last [OF w False this] final show ?thesis by simp
  qed
qed

theorem summary_keeps_first_and_final_line_witness:
  "stripEmptyEnds (Split (''a'' @ [nl] @ ''b'' @ [nl] @ ''c'')) = Inr [''a'', ''b'', ''c''] \<and>
   extractUsefulError (''a'' @ [nl] @ ''b'' @ [nl] @ ''c'') 1 = Inr (''a'' @ [nl] @ ''b'' @ [nl] @ ''c'') \<and>
   (1::int) < int (length [''a'', ''b'', ''c'']) \<and>
   TrimSpace (last [''a'', ''b'', ''c'']) \<noteq> [] \<and>
   \<not> symbolPattern (TrimSpace (last [''a'', ''b'', ''c''])) \<and>
   hd (Split (''a'' @ [nl] @ ''b'' @ [nl] @ ''c'')) = TrimSpace (hd [''a'', ''b'', ''c'']) \<and>
   last (Split (''a'' @ [nl] @ ''b'' @ [nl] @ ''c'')) = TrimSpace (last [''a'', ''b'', ''c'']) \<and>
   stripEmptyEnds (Split '' a'') = Inr ['' a''] \<and>
   extractUsefulError '' a'' 1 = Inr ''a'' \<and>
   int (length ['' a'']) \<le> 1 \<and>
   ''a'' = TrimSpace '' a''"
proof -
  have long: "(1::int) < int (length [''a'', ''b'', ''c''])" by simp
  have final: "TrimSpace (last [''a'', ''b'', ''c'']) \<noteq> [] \<and>
      \<not> symbolPattern (TrimSpace (last [''a'', ''b'', ''c'']))"
    by (simp add: four_TrimSpace four_symbolPattern)
  from summary_keeps_first_and_final_line [OF three_lines three_summary] long final
  have windowed:
    "hd (Split (''a'' @ [nl] @ ''b'' @ [nl] @ ''c'')) = TrimSpace (hd [''a'', ''b'', ''c'']) \<and>
      last (Split (''a'' @ [nl] @ ''b'' @ [nl] @ ''c'')) = TrimSpace (last [''a'', ''b'', ''c''])"
    by blast
  have one: "stripEmptyEnds (Split '' a'') = Inr ['' a'']"
    by (simp add: stripEmptyEnds_def elemAt_def)
  have trim: "TrimSpace '' a'' = ''a''" by code_simp
  have short: "extractUsefulError '' a'' 1 = Inr ''a''"
    by (simp add: extractUsefulError_def stripEmptyEnds_def elemAt_def trim)
  have fits: "int (length ['' a'']) \<le> 1" by simp
  from summary_keeps_first_and_final_line [OF one short] fits
  have fast: "''a'' = TrimSpace '' a''" by blast
  from three_lines three_summary long final windowed one short fits fast
  show ?thesis by blast
qed

text \<open>
  The input on which claim C3 fails as stated: the walk reaches the final line \<^verbatim>\<open>===\<close> with
  one line emitted and a budget of three, and skips it. The output holds neither the final
  line nor a placeholder.
\<close>

theorem summary_drops_symbol_final_line:
  "extractUsefulError (''a'' @ [nl] @ ''b'' @ [nl] @ ''c'' @ [nl] @ ''==='') 3 = Inr ''a''
   \<and> \<not> Contains ''a'' ''==='' \<and> \<not> Contains ''a'' ''omitted''"
  using four_summary by simp

section \<open>The length of the summary\<close>

text \<open>
  Claim C4, amended. On the windowed path the output has at most \<open>maxOutputLines + 7\<close> lines
  (and at most 5 lines when the budget is below \<open>-2\<close>): a critical line found with fewer
  than \<open>maxOutputLines\<close> lines emitted adds up to four lines, and the cutoff or the final
  line adds up to four more.
\<close>

theorem windowed_summary_length:
  assumes "stripEmptyEnds (Split fullMessage) = Inr lines"
    and "maxOutputLines < int (length lines)"
    and "extractUsefulError fullMessage maxOutputLines = Inr out"
  shows "int (length (Split out)) \<le> max (maxOutputLines + 7) 5"
proof -
  from extractUsefulError_long [OF assms]
  have "walk lines maxOutputLines 1 (tl lines) [TrimSpace (hd lines)] [] 0 = Inr (Split out)"
    by simp
  then show ?thesis by (rule walk_length) simp_all
qed

theorem windowed_summary_length_witness:
  "stripEmptyEnds (Split (''a'' @ [nl] @ ''b'' @ [nl] @ ''c'')) = Inr [''a'', ''b'', ''c''] \<and>
   (1::int) < int (length [''a'', ''b'', ''c'']) \<and>
   extractUsefulError (''a'' @ [nl] @ ''b'' @ [nl] @ ''c'') 1 = Inr (''a'' @ [nl] @ ''b'' @ [nl] @ ''c'') \<and>
   int (length (Split (''a'' @ [nl] @ ''b'' @ [nl] @ ''c''))) \<le> max (1 + 7) 5"
proof -
  have long: "(1::int) < int (length [''a'', ''b'', ''c''])" by simp
  from windowed_summary_length [OF three_lines long three_summary] three_lines long three_summary
  show ?thesis by blast
qed

text \<open>
  The input on which claim C4 fails as stated: with budget 2 the summary of the nine-line
  message has nine lines.
\<close>

theorem windowed_summary_exceeds_budget_by_seven:
  "extractUsefulError (''a'' @ [nl] @ ''n1'' @ [nl] @ ''n2'' @ [nl] @ ''n3'' @ [nl] @ ''failed x''
      @ [nl] @ ''y'' @ [nl] @ ''t1'' @ [nl] @ ''t2'' @ [nl] @ ''t3'') 2
     = Inr (''a'' @ [nl] @ ''[... 1 lines omitted ...]'' @ [nl] @ ''n2'' @ [nl] @ ''n3'' @ [nl]
       @ ''failed x'' @ [nl] @ ''[... 2 lines omitted ...]'' @ [nl] @ ''t1'' @ [nl] @ ''t2''
       @ [nl] @ ''t3'') \<and>
   length (Split (''a'' @ [nl] @ ''[... 1 lines omitted ...]'' @ [nl] @ ''n2'' @ [nl] @ ''n3'' @ [nl]
       @ ''failed x'' @ [nl] @ ''[... 2 lines omitted ...]'' @ [nl] @ ''t1'' @ [nl] @ ''t2''
       @ [nl] @ ''t3'')) = 9"
  using nine_summary nine_summary_lines by simp

section \<open>The report accumulator\<close>

text \<open>
  Claim C7. After any sequence of calls on the empty report, the warnings are distinct and are
  the formatted warning strings in the order of their first occurrence; the errors and the
  infos are the formatted strings of all their calls in call order, so the same call made
  twice leaves a duplicate.
\<close>

theorem warnings_deduplicated_errors_infos_appended:
  "distinct (Warnings (foldl (applyCall L) emptyReport calls)) \<and>
   Warnings (foldl (applyCall L) emptyReport calls)
     = rev (remdups (rev (concat (map (warningsOf L) calls)))) \<and>
   Errors (foldl (applyCall L) emptyReport calls) = concat (map (errorsOf L) calls) \<and>
   Infos (foldl (applyCall L) emptyReport calls) = concat (map (infosOf L) calls) \<and>
   \<not> distinct (Errors (foldl (applyCall L) emptyReport [ErrorCall msg fieldv, ErrorCall msg fieldv])) \<and>
   \<not> distinct (Infos (foldl (applyCall L) emptyReport [InfoCall msg fieldv, InfoCall msg fieldv]))"
  using Errors_after_calls [of L calls] Warnings_after_calls [of L calls] Infos_after_calls [of L calls]
  by (simp add: Error_def Info_def)

section \<open>The severity digest\<close>

text \<open>
  Claim C5, amended. For tallies given in the order of the \<^verbatim>\<open>range\<close>, the digest is empty
  exactly when both tallies are empty; otherwise it is the text \<^verbatim>\<open>Mintmaker finished with \<close>
  followed by the rendering of the ERROR tally and then that of the FATAL tally, where a
  non-empty tally renders as its total, a space, the level, a colon and a space, and then its
  messages concatenated, each prefixed with its count and \<^verbatim>\<open>x \<close> exactly when the count
  exceeds 1.
\<close>

theorem severity_digest:
  "buildErrorMessageFromLogs errorLogs fatalLogs =
     (if errorLogs = [] \<and> fatalLogs = [] then []
      else ''Mintmaker finished with '' @
        (if errorLogs = [] then []
         else itoa (sum_list (map snd errorLogs)) @ '' ERROR: '' @
              concat (map (\<lambda>(msg, count). if count > 1 then itoa count @ ''x '' @ msg else msg) errorLogs)) @
        (if fatalLogs = [] then []
         else itoa (sum_list (map snd fatalLogs)) @ '' FATAL: '' @
              concat (map (\<lambda>(msg, count). if count > 1 then itoa count @ ''x '' @ msg else msg) fatalLogs)))
   \<and> (buildErrorMessageFromLogs errorLogs fatalLogs = [] \<longleftrightarrow> errorLogs = [] \<and> fatalLogs = [])"
  by (simp add: buildErrorMessageFromLogs_def Let_def formatFailMsg_Nil_iff formatFailMsg_eq)

text \<open>
  The input on which claim C5 fails as stated: one ERROR message seen once and one FATAL
  message seen twice. The digest is not the two renderings alone.
\<close>

theorem severity_digest_has_prefix:
  "buildErrorMessageFromLogs [(''network timeout'' @ [nl], 1)] [(''disk full'' @ [nl], 2)]
     = ''Mintmaker finished with 1 ERROR: network timeout'' @ [nl] @ ''2 FATAL: 2x disk full'' @ [nl]
   \<and> buildErrorMessageFromLogs [(''network timeout'' @ [nl], 1)] [(''disk full'' @ [nl], 2)]
     \<noteq> formatFailMsg [(''network timeout'' @ [nl], 1)] ''ERROR''
         @ formatFailMsg [(''disk full'' @ [nl], 2)] ''FATAL''"
  by (simp add: buildErrorMessageFromLogs_def formatFailMsg_def Let_def itoa_def digits.simps)

section \<open>The level of a parsed record\<close>

text \<open>
  Claim C2, amended. Let the line decode to a map (its keys are distinct). The parser returns
  a record. If the \<^verbatim>\<open>level\<close> field is one of the numbers 10, 20, 30, 40, 50, 60, the level
  is TRACE, DEBUG, INFO, WARN, ERROR, FATAL respectively. More generally a numeric level is
  truncated towards zero before the lookup: within the range of \<^verbatim>\<open>int\<close>, the level is the
  name of the truncated value when that is in the table, and unset otherwise. If the field
  is absent or not a number, the level is unset.
\<close>

theorem parseLogLine_level:
  assumes "unmarshal L line = Some rawData" and "distinct (map fst rawData)"
  shows "\<exists>entry. parseLogLine L line = Inr entry \<and>
    (\<forall>n name. (n, name) \<in> set [(10, ''TRACE''), (20, ''DEBUG''), (30, ''INFO''),
                                (40, ''WARN''), (50, ''ERROR''), (60, ''FATAL'')] \<and>
        map_of rawData ''level'' = Some (JNum (of_int n)) \<longrightarrow> Level entry = name) \<and>
    (\<forall>f. map_of rawData ''level'' = Some (JNum f) \<and>
         - (2 ^ 63) \<le> truncToZero f \<and> truncToZero f < 2 ^ 63 \<longrightarrow>
       Level entry =
         (if truncToZero f = 10 then ''TRACE'' else if truncToZero f = 20 then ''DEBUG''
          else if truncToZero f = 30 then ''INFO'' else if truncToZero f = 40 then ''WARN''
          else if truncToZero f = 50 then ''ERROR'' else if truncToZero f = 60 then ''FATAL''
          else [])) \<and>
    ((\<forall>f. map_of rawData ''level'' \<noteq> Some (JNum f)) \<longrightarrow> Level entry = [])"
proof -
  let ?entry = "foldl (parseField L) \<lparr>Level = [], Msg = [], Extras = Map.empty\<rparr> rawData"
  have p: "parseLogLine L line = Inr ?entry"
    using assms(1) by (simp add: parseLogLine_def)
  note lev = Level_foldl_parseField [OF assms(2), of L "\<lparr>Level = [], Msg = [], Extras = Map.empty\<rparr>"]
  have a: "Level ?entry =
         (if truncToZero f = 10 then ''TRACE'' else if truncToZero f = 20 then ''DEBUG''
          else if truncToZero f = 30 then ''INFO'' else if truncToZero f = 40 then ''WARN''
          else if truncToZero f = 50 then ''ERROR'' else if truncToZero f = 60 then ''FATAL''
          else [])"
    if "map_of rawData ''level'' = Some (JNum f)"
      "- (2 ^ 63) \<le> truncToZero f" "truncToZero f < 2 ^ 63" for f
    using that by (simp add: lev goInt_def renovateLogLevels_eq)
  have b: "Level ?entry = name"
    if "(n, name) \<in> set [(10, ''TRACE''), (20, ''DEBUG''), (30, ''INFO''),
                           (40, ''WARN''), (50, ''ERROR''), (60, ''FATAL'')]"
      "map_of rawData ''level'' = Some (JNum (of_int n))" for n name
  proof -
    from that(1) have range: "- (2 ^ 63) \<le> n" "n < 2 ^ 63" by auto
    from a [of "of_int n", unfolded truncToZero_of_int, OF that(2) range] that(1)
    show ?thesis by auto
  qed
  have c: "Level ?entry = []" if "\<forall>f. map_of rawData ''level'' \<noteq> Some (JNum f)"
    using that by (simp add: lev split: option.splits json.splits)
  from p a b c show ?thesis by blast
qed


theorem parseLogLine_level_witness:
  "unmarshal
     \<lparr>sprintV = \<lambda>x. [], sprintS = \<lambda>x. [],
      unmarshal = \<lambda>s. if s = ''{'' @ [CHR 0x22] @ ''level'' @ [CHR 0x22] @ '':50}''
                         then Some [(''level'', JNum 50)] else None,
      convOverflow = \<lambda>f. 0\<rparr>
     (''{'' @ [CHR 0x22] @ ''level'' @ [CHR 0x22] @ '':50}'') = Some [(''level'', JNum 50)] \<and>
   distinct (map fst [(''level'', JNum 50)]) \<and>
   (\<exists>entry.
      parseLogLine
        \<lparr>sprintV = \<lambda>x. [], sprintS = \<lambda>x. [],
         unmarshal = \<lambda>s. if s = ''{'' @ [CHR 0x22] @ ''level'' @ [CHR 0x22] @ '':50}''
                            then Some [(''level'', JNum 50)] else None,
         convOverflow = \<lambda>f. 0\<rparr>
        (''{'' @ [CHR 0x22] @ ''level'' @ [CHR 0x22] @ '':50}'') = Inr entry \<and>
      Level entry = ''ERROR'')"
proof -
  let ?line = "''{'' @ [CHR 0x22] @ ''level'' @ [CHR 0x22] @ '':50}''"
  let ?L = "\<lparr>sprintV = \<lambda>x. [], sprintS = \<lambda>x. [],
      unmarshal = \<lambda>s. if s = ?line then Some [(''level'', JNum 50)] else None,
      convOverflow = \<lambda>f. 0\<rparr>"
  have u: "unmarshal ?L ?line = Some [(''level'', JNum 50)]" by simp
  have d: "distinct (map fst [(''level'', JNum 50)])" by simp
  have m: "map_of [(''level'', JNum 50)] ''level'' = Some (JNum (of_int 50))" by simp
  have t: "(50, ''ERROR'') \<in> set [(10, ''TRACE''), (20, ''DEBUG''), (30, ''INFO''),
      (40, ''WARN''), (50::int, ''ERROR''), (60, ''FATAL'')]" by simp
  from parseLogLine_level [OF u d] m t
  have "\<exists>entry. parseLogLine ?L ?line = Inr entry \<and> Level entry = ''ERROR''"
    by blast
  with u d show ?thesis by blast
qed

text \<open>
  The input on which claim C2 fails as stated: the level 10.5 is none of the six numbers, and
  the record's level is TRACE.
\<close>

theorem parseLogLine_fractional_level:
  "parseLogLine
     \<lparr>sprintV = \<lambda>x. [], sprintS = \<lambda>x. [],
      unmarshal = \<lambda>s. if s = ''{'' @ [CHR 0x22] @ ''level'' @ [CHR 0x22] @ '':10.5}''
                         then Some [(''level'', JNum (21 / 2))] else None,
      convOverflow = \<lambda>f. 0\<rparr>
     (''{'' @ [CHR 0x22] @ ''level'' @ [CHR 0x22] @ '':10.5}'')
   = Inr \<lparr>Level = ''TRACE'', Msg = [], Extras = Map.empty\<rparr>"
  by (simp add: parseLogLine_def parseField_def goInt_def truncToZero_ten_and_a_half
      renovateLogLevels_def)

section \<open>Selector dispatch\<close>



section \<open>A check function that panics\<close>

text \<open>
  Claim C1 does not hold for \<^verbatim>\<open>platformCommitError\<close>. On a record whose message is the
  selector and whose \<^verbatim>\<open>err\<close> is an object without a \<^verbatim>\<open>task\<close>, the function panics, and so
  does the selector loop over the registry. (The three other check functions return on every
  record, as \<open>prLimitReached_returns\<close>, \<open>renovateConfigErrors_returns\<close> and
  \<open>rawExecError_returns\<close> show.)
\<close>

theorem platformCommitError_panics_without_task:
  "Contains ''Platform-native commit: unknown error'' ''Platform-native commit: unknown error'' \<and>
   platformCommitError L
     \<lparr>Level = ''DEBUG'', Msg = ''Platform-native commit: unknown error'',
      Extras = [''err'' \<mapsto> JObj [(''message'', JStr ''boom'')]]\<rparr> r
   = Inl InterfaceConversion \<and>
   dispatch (Selectors L)
     \<lparr>Level = ''DEBUG'', Msg = ''Platform-native commit: unknown error'',
      Extras = [''err'' \<mapsto> JObj [(''message'', JStr ''boom'')]]\<rparr> r
   = Inl InterfaceConversion"
  by (simp add: Selectors_def platformCommitError_def extra_def mapIndex_def)

section \<open>An interrupted scan\<close>

text \<open>
  Claim C6. Let the file open, and let the scan be interrupted after \<open>k\<close> lines: either the
  poll of the context before line \<open>k\<close> finds it done (and no earlier poll did), or the
  scanner stops after its \<open>k\<close> lines with a read error. Let \<open>s\<close> be the state in which the
  uninterrupted scan of the first \<open>k\<close> lines ends. If \<open>s\<close> holds a finding (a non-empty
  tally or report list), \<^verbatim>\<open>ProcessLogFile\<close> returns the digest of the tallies of \<open>s\<close>, the
  report of \<open>s\<close> and no error; if it holds none, it returns the empty digest, the report and
  an error.
\<close>

theorem interrupted_scan:
  assumes "logFile env = Opened"
    and "k \<le> length (scannedLines env)"
    and "\<forall>j. j < k \<longrightarrow> \<not> (j mod 100 = 0 \<and> ctxDone env j)"
    and "(k < length (scannedLines env) \<and> k mod 100 = 0 \<and> ctxDone env k) \<or>
         (k = length (scannedLines env) \<and> scannerErr env)"
    and "scanLoop L (env\<lparr>ctxDone := \<lambda>n. False\<rparr>) 0 (take k (scannedLines env))
           \<lparr>errorsMap = [], fatalMap = [], report = emptyReport\<rparr> = Inr (FellThrough s)"
  shows "ProcessLogFile L env =
     Inr (if nothingFound s
          then ([], report s,
                Some (if k < length (scannedLines env) then Cancelled else ReadError))
          else (buildErrorMessageFromLogs (rangeTally env (errorsMap s))
                  (rangeTally env (fatalMap s)),
                report s, None))"
proof -
  let ?s0 = "\<lparr>errorsMap = [], fatalMap = [], report = emptyReport\<rparr>"
  have "\<forall>j. 0 \<le> j \<and> j < 0 + k \<longrightarrow> \<not> (j mod 100 = 0 \<and> ctxDone env j)"
    using assms(3) by simp
  from scanLoop_first_lines [OF this assms(2) assms(5)]
  have loop: "scanLoop L env 0 (scannedLines env) ?s0 = scanLoop L env k (drop k (scannedLines env)) s"
    by simp
  from assms(4) show ?thesis
  proof
    assume c: "k < length (scannedLines env) \<and> k mod 100 = 0 \<and> ctxDone env k"
    then obtain line rest where "drop k (scannedLines env) = line # rest"
      by (cases "drop k (scannedLines env)") auto
    with c have "scanLoop L env k (drop k (scannedLines env)) s
        = Inr (Returned (interrupted env Cancelled s))"
      by simp
    with loop assms(1) c show ?thesis
      by (simp add: ProcessLogFile_def interrupted_def)
  next
    assume e: "k = length (scannedLines env) \<and> scannerErr env"
    then have "scanLoop L env k (drop k (scannedLines env)) s = Inr (FellThrough s)"
      by simp
    with loop assms(1) e show ?thesis
      by (simp add: ProcessLogFile_def interrupted_def)
  qed
qed


theorem interrupted_scan_witness:
  "scannerErr
     \<lparr>logFile = Opened,
        scannedLines = [(''{'' @ [CHR 0x22] @ ''level'' @ [CHR 0x22] @ '':60,'' @ [CHR 0x22] @ ''msg'' @ [CHR 0x22] @ '':'' @ [CHR 0x22] @ ''disk full'' @ [CHR 0x22] @ ''}'')],
        scannerErr = True, ctxDone = \<lambda>n. False,
        rangeSelectors = \<lambda>n sels. sels, rangeTally = \<lambda>m. m\<rparr> \<and>
   scanLoop
     \<lparr>sprintV = \<lambda>x. [], sprintS = \<lambda>x. [],
        unmarshal = \<lambda>line. if line = (''{'' @ [CHR 0x22] @ ''level'' @ [CHR 0x22] @ '':60,'' @ [CHR 0x22] @ ''msg'' @ [CHR 0x22] @ '':'' @ [CHR 0x22] @ ''disk full'' @ [CHR 0x22] @ ''}'')
          then Some [(''level'', JNum 60), (''msg'', JStr ''disk full'')] else None,
        convOverflow = \<lambda>f. 0\<rparr>
     (\<lparr>logFile = Opened,
        scannedLines = [(''{'' @ [CHR 0x22] @ ''level'' @ [CHR 0x22] @ '':60,'' @ [CHR 0x22] @ ''msg'' @ [CHR 0x22] @ '':'' @ [CHR 0x22] @ ''disk full'' @ [CHR 0x22] @ ''}'')],
        scannerErr = True, ctxDone = \<lambda>n. False,
        rangeSelectors = \<lambda>n sels. sels, rangeTally = \<lambda>m. m\<rparr>\<lparr>ctxDone := \<lambda>n. False\<rparr>)
     0
     (take 1 [(''{'' @ [CHR 0x22] @ ''level'' @ [CHR 0x22] @ '':60,'' @ [CHR 0x22] @ ''msg'' @ [CHR 0x22] @ '':'' @ [CHR 0x22] @ ''disk full'' @ [CHR 0x22] @ ''}'')])
     \<lparr>errorsMap = [], fatalMap = [], report = emptyReport\<rparr>
   = Inr (FellThrough \<lparr>errorsMap = [], fatalMap = [(''disk full'' @ [nl], 1)], report = emptyReport\<rparr>) \<and>
   ProcessLogFile
     \<lparr>sprintV = \<lambda>x. [], sprintS = \<lambda>x. [],
        unmarshal = \<lambda>line. if line = (''{'' @ [CHR 0x22] @ ''level'' @ [CHR 0x22] @ '':60,'' @ [CHR 0x22] @ ''msg'' @ [CHR 0x22] @ '':'' @ [CHR 0x22] @ ''disk full'' @ [CHR 0x22] @ ''}'')
          then Some [(''level'', JNum 60), (''msg'', JStr ''disk full'')] else None,
        convOverflow = \<lambda>f. 0\<rparr>
     \<lparr>logFile = Opened,
        scannedLines = [(''{'' @ [CHR 0x22] @ ''level'' @ [CHR 0x22] @ '':60,'' @ [CHR 0x22] @ ''msg'' @ [CHR 0x22] @ '':'' @ [CHR 0x22] @ ''disk full'' @ [CHR 0x22] @ ''}'')],
        scannerErr = True, ctxDone = \<lambda>n. False,
        rangeSelectors = \<lambda>n sels. sels, rangeTally = \<lambda>m. m\<rparr>
   = Inr (''Mintmaker finished with 1 FATAL: disk full'' @ [nl], emptyReport, None) \<and>
   ctxDone
     \<lparr>logFile = Opened, scannedLines = [''{}''], scannerErr = False,
        ctxDone = \<lambda>n. True, rangeSelectors = \<lambda>n sels. sels, rangeTally = \<lambda>m. m\<rparr> 0 \<and>
   ProcessLogFile
     \<lparr>sprintV = \<lambda>x. [], sprintS = \<lambda>x. [], unmarshal = \<lambda>line. Some [],
        convOverflow = \<lambda>f. 0\<rparr>
     \<lparr>logFile = Opened, scannedLines = [''{}''], scannerErr = False,
        ctxDone = \<lambda>n. True, rangeSelectors = \<lambda>n sels. sels, rangeTally = \<lambda>m. m\<rparr>
   = Inr ([], emptyReport, Some Cancelled)"
proof -
  let ?cenv = "\<lparr>logFile = Opened, scannedLines = [''{}''], scannerErr = False,
        ctxDone = \<lambda>n. True, rangeSelectors = \<lambda>n sels. sels, rangeTally = \<lambda>m. m\<rparr>"
  let ?cL = "\<lparr>sprintV = \<lambda>x. [], sprintS = \<lambda>x. [], unmarshal = \<lambda>line. Some [],
        convOverflow = \<lambda>f. 0\<rparr>"
  let ?s0 = "\<lparr>errorsMap = [], fatalMap = [], report = emptyReport\<rparr>"
  have c1: "logFile ?cenv = Opened" by simp
  have c2: "(0::nat) \<le> length (scannedLines ?cenv)" by simp
  have c3: "\<forall>j. j < (0::nat) \<longrightarrow> \<not> (j mod 100 = 0 \<and> ctxDone ?cenv j)" by simp
  have c4: "((0::nat) < length (scannedLines ?cenv) \<and> (0::nat) mod 100 = 0 \<and> ctxDone ?cenv 0) \<or>
      ((0::nat) = length (scannedLines ?cenv) \<and> scannerErr ?cenv)" by simp
  have c5: "scanLoop ?cL (?cenv\<lparr>ctxDone := \<lambda>n. False\<rparr>) 0 (take 0 (scannedLines ?cenv)) ?s0
      = Inr (FellThrough ?s0)"
    by simp
  have none: "nothingFound ?s0" by (simp add: nothingFound_def emptyReport_def)
  from interrupted_scan [OF c1 c2 c3 c4 c5] none
  have cancelled: "ProcessLogFile ?cL ?cenv = Inr ([], emptyReport, Some Cancelled)"
    by simp
  have polled: "ctxDone ?cenv 0" by simp
  let ?line = "(''{'' @ [CHR 0x22] @ ''level'' @ [CHR 0x22] @ '':60,'' @ [CHR 0x22] @ ''msg'' @ [CHR 0x22] @ '':'' @ [CHR 0x22] @ ''disk full'' @ [CHR 0x22] @ ''}'')"
  let ?L = "\<lparr>sprintV = \<lambda>x. [], sprintS = \<lambda>x. [],
        unmarshal = \<lambda>line. if line = (''{'' @ [CHR 0x22] @ ''level'' @ [CHR 0x22] @ '':60,'' @ [CHR 0x22] @ ''msg'' @ [CHR 0x22] @ '':'' @ [CHR 0x22] @ ''disk full'' @ [CHR 0x22] @ ''}'')
          then Some [(''level'', JNum 60), (''msg'', JStr ''disk full'')] else None,
        convOverflow = \<lambda>f. 0\<rparr>"
  let ?env = "\<lparr>logFile = Opened,
        scannedLines = [(''{'' @ [CHR 0x22] @ ''level'' @ [CHR 0x22] @ '':60,'' @ [CHR 0x22] @ ''msg'' @ [CHR 0x22] @ '':'' @ [CHR 0x22] @ ''disk full'' @ [CHR 0x22] @ ''}'')],
        scannerErr = True, ctxDone = \<lambda>n. False,
        rangeSelectors = \<lambda>n sels. sels, rangeTally = \<lambda>m. m\<rparr>"
  let ?s = "\<lparr>errorsMap = [], fatalMap = [(''disk full'' @ [nl], 1)], report = emptyReport\<rparr>"
  have parse: "parseLogLine ?L ?line = Inr \<lparr>Level = ''FATAL'', Msg = ''disk full'', Extras = Map.empty\<rparr>"
    by (simp add: parseLogLine_def parseField_def goInt_def truncToZero_def renovateLogLevels_def)
  have build: "buildErrorMessage \<lparr>Level = ''FATAL'', Msg = ''disk full'', Extras = Map.empty\<rparr>
      = ''disk full'' @ [nl]"
    by (simp add: buildErrorMessage_def extra_def)
  have disp: "dispatch (Selectors M) \<lparr>Level = ''FATAL'', Msg = ''disk full'', Extras = Map.empty\<rparr> emptyReport
      = Inr emptyReport" for M
    by (simp add: Selectors_def)
  have line: "processLine ?L (?env\<lparr>ctxDone := \<lambda>n. False\<rparr>) 0 ?line
      \<lparr>errorsMap = [], fatalMap = [], report = emptyReport\<rparr> = Inr ?s"
    unfolding processLine_def parse by (simp add: build disp del: dispatch.simps)
  have h1: "logFile ?env = Opened" by simp
  have h2: "1 \<le> length (scannedLines ?env)" by simp
  have h3: "\<forall>j. j < 1 \<longrightarrow> \<not> (j mod 100 = 0 \<and> ctxDone ?env j)" by simp
  have h4: "(1 < length (scannedLines ?env) \<and> 1 mod 100 = 0 \<and> ctxDone ?env 1) \<or>
      (1 = length (scannedLines ?env) \<and> scannerErr ?env)" by simp
  have h5: "scanLoop ?L (?env\<lparr>ctxDone := \<lambda>n. False\<rparr>) 0 (take 1 (scannedLines ?env))
      \<lparr>errorsMap = [], fatalMap = [], report = emptyReport\<rparr> = Inr (FellThrough ?s)"
    using line by simp
  have found: "\<not> nothingFound ?s" by (simp add: nothingFound_def)
  have digest: "buildErrorMessageFromLogs (rangeTally ?env (errorsMap ?s)) (rangeTally ?env (fatalMap ?s))
      = ''Mintmaker finished with 1 FATAL: disk full'' @ [nl]"
    by (simp add: buildErrorMessageFromLogs_def formatFailMsg_def Let_def itoa_def digits.simps)
  from interrupted_scan [OF h1 h2 h3 h4 h5]
  have "ProcessLogFile ?L ?env
      = Inr (''Mintmaker finished with 1 FATAL: disk full'' @ [nl], emptyReport, None)"
    unfolding digest using found by simp
  moreover have "scannerErr ?env" by simp
  moreover from h5 have "scanLoop ?L (?env\<lparr>ctxDone := \<lambda>n. False\<rparr>) 0 (take 1 [?line])
      \<lparr>errorsMap = [], fatalMap = [], report = emptyReport\<rparr> = Inr (FellThrough ?s)"
    by simp
  moreover note polled cancelled
  ultimately show ?thesis by blast
qed

end
